theory Spec2Isabelle
  imports
    Complex_Main
    "HOL-Library.Multiset"
    "HOL-Library.Signed_Division"
    "HOL-Library.Monad_Syntax"
begin

section \<open>Data model of \<open>Cmfd.h\<close>\<close>

text \<open>
  \<open>FP_PRECISION\<close> values are modelled as exact reals and C++ \<open>int\<close> values as
  mathematical integers (signed overflow is undefined in C++, so every defined run of
  the code agrees with the model). \<open>/\<close> and \<open>%\<close> on \<open>int\<close> truncate towards zero:
  they are \<open>sdiv\<close> and \<open>smod\<close>.

  An array reached through a raw pointer is a list; reading or writing outside it is
  undefined behaviour in C++, which the model makes explicit as the result \<open>None\<close>.
\<close>

type_synonym FP_PRECISION = real

text \<open>The two CMFD surface tags a \<open>segment\<close> carries (\<open>Track.h\<close>); \<open>-1\<close> means that the
  segment crosses no CMFD surface in that direction.\<close>

record segment =
  cmfd_surface_fwd :: int
  cmfd_surface_bwd :: int

text \<open>
  Modelled from the spec: class \<open>Vector\<close>, which \<open>Cmfd.h\<close> uses and does not declare (its
  header is not among the sources). The surface-current store holds, per coarse cell, one
  accumulator per (surface, coarse group); \<open>Cmfd.h\<close> addresses it by a cell id and an
  index within the cell, so the store is a table from (cell, index) to a value. The
  coarse flux vectors are addressed by (cell, coarse group) in the same way.
\<close>

type_synonym Vector = "int \<Rightarrow> int \<Rightarrow> FP_PRECISION"

text \<open>The fields of class \<open>Cmfd\<close> that the verified functions read or write. The
  \<open>Quadrature\<close> object is represented by its weight table \<open>getWeightInline\<close>.\<close>

record Cmfd =
  quadrature :: "int \<Rightarrow> int \<Rightarrow> FP_PRECISION"
  k_eff :: FP_PRECISION
  new_flux :: Vector
  old_flux :: Vector
  flux_ratio :: Vector
  num_x :: int
  num_y :: int
  num_z :: int
  num_moc_groups :: int
  num_polar :: int
  num_cmfd_groups :: int
  group_indices_map :: "int list"
  num_FSRs :: int
  FSR_fluxes :: "FP_PRECISION list"
  surface_currents :: Vector
  cell_fsrs :: "int list list"
  flux_update_on :: bool
  centroid_update_on :: bool
  k_nearest :: int
  k_nearest_stencils :: "int \<rightharpoonup> (int \<times> FP_PRECISION) list"
  solve_3D :: bool

section \<open>Arrays and counted loops\<close>

definition read_at :: "'v list \<Rightarrow> int \<Rightarrow> 'v option" where
  "read_at xs i = (if 0 \<le> i \<and> i < int (length xs) then Some (xs ! nat i) else None)"

text \<open>\<open>xs[i] += v\<close>\<close>

definition add_at :: "FP_PRECISION list \<Rightarrow> int \<Rightarrow> FP_PRECISION \<Rightarrow> FP_PRECISION list option" where
  "add_at xs i v =
     (if 0 \<le> i \<and> i < int (length xs) then Some (xs[nat i := xs ! nat i + v]) else None)"

text \<open>A \<open>for\<close> loop over the index values \<open>is\<close>, threading the loop state and stopping at
  the first undefined step.\<close>

primrec for_each :: "'i list \<Rightarrow> ('i \<Rightarrow> 's \<Rightarrow> 's option) \<Rightarrow> 's \<Rightarrow> 's option" where
  "for_each [] body s = Some s"
| "for_each (i # is) body s = (case body i s of None \<Rightarrow> None | Some s' \<Rightarrow> for_each is body s')"

section \<open>\<open>Cmfd::getCmfdGroup\<close>\<close>

definition getCmfdGroup :: "'a Cmfd_scheme \<Rightarrow> int \<Rightarrow> int option" where
  "getCmfdGroup c moc_group = read_at (group_indices_map c) moc_group"

section \<open>\<open>Cmfd::tallyCurrent\<close>\<close>

text \<open>
  Modelled from the spec: \<open>Vector::incrementValues(cell, group_first, group_last, vals)\<close>,
  a method of the absent class \<open>Vector\<close>. \<open>tallyCurrent\<close> calls it under the comment
  ``Increment currents'' with the cell id, the first and the last index of the crossed
  surface's accumulators and the local array of condensed currents: entry \<open>j\<close> of the
  cell, for \<open>group_first \<le> j \<le> group_last\<close>, grows by \<open>vals[j - group_first]\<close>, and nothing
  else changes. Reading \<open>vals\<close> beyond its end is undefined.
\<close>

definition incrementValues ::
  "int \<Rightarrow> int \<Rightarrow> int \<Rightarrow> FP_PRECISION list \<Rightarrow> Vector \<Rightarrow> Vector option" where
  "incrementValues cell group_first group_last vals v =
     (if group_last < group_first \<or> group_last - group_first < int (length vals)
      then Some (\<lambda>i j. if i = cell \<and> group_first \<le> j \<and> j \<le> group_last
                        then v i j + vals ! nat (j - group_first) else v i j)
      else None)"

text \<open>The body of the 3D loop over the fine groups \<open>e\<close>:
  \<open>currents[getCmfdGroup(e)] += track_flux[e] * wgt\<close>.\<close>

definition tally3D_body ::
  "'a Cmfd_scheme \<Rightarrow> FP_PRECISION list \<Rightarrow> FP_PRECISION \<Rightarrow> int \<Rightarrow>
   FP_PRECISION list \<Rightarrow> FP_PRECISION list option" where
  "tally3D_body c track_flux wgt e currents =
     do {
       cmfd_group \<leftarrow> getCmfdGroup c e;
       flux \<leftarrow> read_at track_flux e;
       add_at currents cmfd_group (flux * wgt)
     }"

text \<open>The body of the inner 2D loop over the polar index \<open>p\<close>; the loop state is the
  local array \<open>currents\<close> and the running index \<open>pe\<close>:
  \<open>currents[cmfd_group] += track_flux[pe] * getWeightInline(azim_index, p); pe++\<close>.\<close>

definition tally2D_polar ::
  "'a Cmfd_scheme \<Rightarrow> FP_PRECISION list \<Rightarrow> int \<Rightarrow> int \<Rightarrow> int \<Rightarrow>
   FP_PRECISION list \<times> int \<Rightarrow> (FP_PRECISION list \<times> int) option" where
  "tally2D_polar c track_flux azim_index cmfd_group p st =
     (case st of (currents, pe) \<Rightarrow>
        do {
          flux \<leftarrow> read_at track_flux pe;
          currents' \<leftarrow> add_at currents cmfd_group (flux * quadrature c azim_index p);
          Some (currents', pe + 1)
        })"

text \<open>The body of the outer 2D loop over the fine groups \<open>e\<close>, with the inner loop
  \<open>for (int p = 0; p < _num_polar/2; p++)\<close>.\<close>

definition tally2D_body ::
  "'a Cmfd_scheme \<Rightarrow> FP_PRECISION list \<Rightarrow> int \<Rightarrow> int \<Rightarrow>
   FP_PRECISION list \<times> int \<Rightarrow> (FP_PRECISION list \<times> int) option" where
  "tally2D_body c track_flux azim_index e st =
     do {
       cmfd_group \<leftarrow> getCmfdGroup c e;
       for_each [0 .. num_polar c sdiv 2 - 1]
         (tally2D_polar c track_flux azim_index cmfd_group) st
     }"

text \<open>
  \<open>tallyCurrent\<close>, with the constant \<open>NUM_SURFACES\<close> (a positive constant defined outside
  \<open>Cmfd.h\<close>) as a parameter. \<open>crossing\<close> is \<open>None\<close> where the source leaves
  \<open>tally_current\<close> false and holds \<open>(surf_id, cell_id)\<close> otherwise. The object is returned
  updated. The function-like macro \<open>track_flux(p,e)\<close> of \<open>Cmfd.h\<close> is never invoked by
  \<open>tallyCurrent\<close>, which indexes the array \<open>track_flux\<close> directly.
\<close>

definition tallyCurrent ::
  "int \<Rightarrow> segment \<Rightarrow> FP_PRECISION list \<Rightarrow> int \<Rightarrow> int \<Rightarrow> bool \<Rightarrow>
   'a Cmfd_scheme \<Rightarrow> 'a Cmfd_scheme option" where
  "tallyCurrent NUM_SURFACES curr_segment track_flux azim_index polar_index fwd c =
     (let ncg = num_cmfd_groups c;
          currents = replicate (nat ncg) 0;
          crossing =
            (if cmfd_surface_fwd curr_segment \<noteq> - 1 \<and> fwd then
               Some (cmfd_surface_fwd curr_segment smod NUM_SURFACES,
                     cmfd_surface_fwd curr_segment sdiv NUM_SURFACES)
             else if cmfd_surface_bwd curr_segment \<noteq> - 1 \<and> \<not> fwd then
               Some (cmfd_surface_bwd curr_segment smod NUM_SURFACES,
                     cmfd_surface_bwd curr_segment sdiv NUM_SURFACES)
             else None)
      in case crossing of
           None \<Rightarrow> Some c
         | Some (surf_id, cell_id) \<Rightarrow>
             if solve_3D c then
               do {
                 let wgt = quadrature c azim_index polar_index;
                 currents' \<leftarrow>
                   for_each [0 .. num_moc_groups c - 1] (tally3D_body c track_flux wgt) currents;
                 sc \<leftarrow> incrementValues cell_id (surf_id * ncg) ((surf_id + 1) * ncg - 1)
                         currents' (surface_currents c);
                 Some (c\<lparr>surface_currents := sc\<rparr>)
               }
             else
               do {
                 (currents', pe) \<leftarrow>
                   for_each [0 .. num_moc_groups c - 1] (tally2D_body c track_flux azim_index)
                     (currents, 0);
                 sc \<leftarrow> incrementValues cell_id (surf_id * ncg) ((surf_id + 1) * ncg - 1)
                         currents' (surface_currents c);
                 Some (c\<lparr>surface_currents := sc\<rparr>)
               })"

section \<open>Vocabulary for the properties of \<open>tallyCurrent\<close>\<close>

text \<open>The surface tag that matches the direction of integration.\<close>

definition matched_tag :: "segment \<Rightarrow> bool \<Rightarrow> int" where
  "matched_tag curr_segment fwd =
     (if fwd then cmfd_surface_fwd curr_segment else cmfd_surface_bwd curr_segment)"

text \<open>
  The inputs under which no array access of \<open>tallyCurrent\<close> is out of bounds: every fine
  group has an entry in the group map, that entry is a coarse group, and every index
  read from \<open>track_flux\<close> lies inside it.
\<close>

definition tally_inputs_ok :: "'a Cmfd_scheme \<Rightarrow> FP_PRECISION list \<Rightarrow> bool" where
  "tally_inputs_ok c track_flux \<longleftrightarrow>
     (\<forall>e \<in> set [0 .. num_moc_groups c - 1].
        e < int (length (group_indices_map c)) \<and>
        0 \<le> group_indices_map c ! nat e \<and>
        group_indices_map c ! nat e < num_cmfd_groups c \<and>
        (if solve_3D c then e < int (length track_flux)
         else \<forall>p \<in> set [0 .. num_polar c sdiv 2 - 1].
                e * (num_polar c sdiv 2) + p < int (length track_flux)))"

text \<open>
  What one fine group \<open>e\<close> contributes: \<open>track_flux[e] * weight\<close> in a 3D solve; in a 2D
  solve the sum over the polar half-space \<open>p = 0 .. num_polar/2 - 1\<close> of the angular flux
  of \<open>(e, p)\<close>, which the code reads at \<open>track_flux[e * (num_polar/2) + p]\<close>, times the
  weight of \<open>p\<close>.
\<close>

definition fine_group_contribution ::
  "'a Cmfd_scheme \<Rightarrow> FP_PRECISION list \<Rightarrow> int \<Rightarrow> int \<Rightarrow> int \<Rightarrow> FP_PRECISION" where
  "fine_group_contribution c track_flux azim_index polar_index e =
     (if solve_3D c then track_flux ! nat e * quadrature c azim_index polar_index
      else sum_list (map (\<lambda>p. track_flux ! nat (e * (num_polar c sdiv 2) + p)
                                * quadrature c azim_index p)
                         [0 .. num_polar c sdiv 2 - 1]))"

text \<open>The current condensed into coarse group \<open>g\<close>: the sum over the fine groups that
  the group map sends to \<open>g\<close>.\<close>

definition condensed_current ::
  "'a Cmfd_scheme \<Rightarrow> FP_PRECISION list \<Rightarrow> int \<Rightarrow> int \<Rightarrow> int \<Rightarrow> FP_PRECISION" where
  "condensed_current c track_flux azim_index polar_index g =
     sum_list (map (fine_group_contribution c track_flux azim_index polar_index)
                   (filter (\<lambda>e. group_indices_map c ! nat e = g) [0 .. num_moc_groups c - 1]))"

text \<open>The local array \<open>currents\<close> when the loops of \<open>tallyCurrent\<close> are done.\<close>

definition segment_currents ::
  "'a Cmfd_scheme \<Rightarrow> FP_PRECISION list \<Rightarrow> int \<Rightarrow> int \<Rightarrow> FP_PRECISION list option" where
  "segment_currents c track_flux azim_index polar_index =
     (if solve_3D c then
        for_each [0 .. num_moc_groups c - 1]
          (tally3D_body c track_flux (quadrature c azim_index polar_index))
          (replicate (nat (num_cmfd_groups c)) 0)
      else
        map_option fst
          (for_each [0 .. num_moc_groups c - 1] (tally2D_body c track_flux azim_index)
            (replicate (nat (num_cmfd_groups c)) 0, 0)))"

text \<open>A sequence of calls of \<open>tallyCurrent\<close> on one object, each given by its arguments.\<close>

definition tally_call ::
  "int \<Rightarrow> segment \<times> FP_PRECISION list \<times> int \<times> int \<times> bool \<Rightarrow>
   'a Cmfd_scheme \<Rightarrow> 'a Cmfd_scheme option" where
  "tally_call NUM_SURFACES call c =
     (case call of (curr_segment, track_flux, azim_index, polar_index, fwd) \<Rightarrow>
        tallyCurrent NUM_SURFACES curr_segment track_flux azim_index polar_index fwd c)"

definition tally_all ::
  "int \<Rightarrow> (segment \<times> FP_PRECISION list \<times> int \<times> int \<times> bool) list \<Rightarrow>
   'a Cmfd_scheme \<Rightarrow> 'a Cmfd_scheme option" where
  "tally_all NUM_SURFACES calls c = for_each calls (tally_call NUM_SURFACES) c"

text \<open>What one call adds to entry \<open>j\<close> of cell \<open>i\<close>.\<close>

definition call_contribution ::
  "int \<Rightarrow> 'a Cmfd_scheme \<Rightarrow> segment \<times> FP_PRECISION list \<times> int \<times> int \<times> bool \<Rightarrow>
   int \<Rightarrow> int \<Rightarrow> FP_PRECISION" where
  "call_contribution NUM_SURFACES c call i j =
     (case call of (curr_segment, track_flux, azim_index, polar_index, fwd) \<Rightarrow>
        let tag = matched_tag curr_segment fwd;
            ncg = num_cmfd_groups c
        in if tag \<noteq> - 1 \<and> i = tag sdiv NUM_SURFACES
              \<and> tag smod NUM_SURFACES * ncg \<le> j \<and> j \<le> (tag smod NUM_SURFACES + 1) * ncg - 1
           then condensed_current c track_flux azim_index polar_index
                  (j - tag smod NUM_SURFACES * ncg)
           else 0)"

text \<open>A small object for concrete runs: three fine groups condensed into two coarse
  groups, four polar angles, a 2D solve, an empty surface-current store.\<close>

definition example_cmfd :: Cmfd where
  "example_cmfd =
     \<lparr> quadrature = (\<lambda>a p. if p = 0 then 1 / 2 else 1 / 4),
       k_eff = 1,
       new_flux = (\<lambda>_ _. 1),
       old_flux = (\<lambda>_ _. 1),
       flux_ratio = (\<lambda>_ _. 1),
       num_x = 2, num_y = 1, num_z = 1,
       num_moc_groups = 3,
       num_polar = 4,
       num_cmfd_groups = 2,
       group_indices_map = [0, 0, 1],
       num_FSRs = 2,
       FSR_fluxes = [1, 1, 1, 2, 2, 2],
       surface_currents = (\<lambda>_ _. 0),
       cell_fsrs = [[0], [1]],
       flux_update_on = True,
       centroid_update_on = False,
       k_nearest = 1,
       k_nearest_stencils = Map.empty,
       solve_3D = False \<rparr>"

section \<open>K-nearest stencils\<close>

text \<open>\<open>stencilCompare\<close>, the comparator of \<open>Cmfd.h\<close> for sorting the (cell, distance) pairs
  of a stencil: the first pair comes before the second when its distance is smaller.\<close>

definition stencilCompare :: "int \<times> FP_PRECISION \<Rightarrow> int \<times> FP_PRECISION \<Rightarrow> bool" where
  "stencilCompare firstElem secondElem \<longleftrightarrow> snd firstElem < snd secondElem"

text \<open>
  Modelled from the spec: the sorting step of \<open>Cmfd::generateKNearestStencils\<close>, whose body
  is not among the sources. The spec has the pairs ``sorted ascending by distance'' with
  the comparator above; the model sorts by insertion, a pair going in front of the first
  pair that does not compare smaller than it.
\<close>

fun stencil_insert ::
  "int \<times> FP_PRECISION \<Rightarrow> (int \<times> FP_PRECISION) list \<Rightarrow> (int \<times> FP_PRECISION) list" where
  "stencil_insert x [] = [x]"
| "stencil_insert x (y # ys) =
     (if stencilCompare y x then y # stencil_insert x ys else x # y # ys)"

text \<open>Modelled from the spec: the sort of \<open>generateKNearestStencils\<close> (body absent), as
  repeated insertion.\<close>

definition stencil_sort :: "(int \<times> FP_PRECISION) list \<Rightarrow> (int \<times> FP_PRECISION) list" where
  "stencil_sort xs = foldr stencil_insert xs []"

text \<open>
  Modelled from the spec: \<open>Cmfd::getNumCells\<close> (declared in \<open>Cmfd.h\<close>, body absent). A coarse
  cell is ``identified by flattened (x,y,z) index'', so there are
  \<open>num_x * num_y * num_z\<close> of them.
\<close>

definition getNumCells :: "'a Cmfd_scheme \<Rightarrow> int" where
  "getNumCells c = num_x c * num_y c * num_z c"

text \<open>
  Modelled from the spec: \<open>Cmfd::generateKNearestStencils\<close> (declared in \<open>Cmfd.h\<close>, body
  absent). Per fine region the stencil is ``an ordered list of (coarse-cell-id,
  distance-to-centroid) pairs, sorted ascending by distance, truncated to k entries'':
  the pairs of all coarse cells are sorted and the first \<open>k_nearest\<close> kept. The distance
  of a region's centroid to a coarse cell (\<open>getDistanceToCentroid\<close>, body absent) is the
  parameter \<open>centroid_distance\<close>. The stencils are stored per region id
  \<open>0 .. num_FSRs - 1\<close>.
\<close>

definition generateKNearestStencil ::
  "(int \<Rightarrow> int \<Rightarrow> FP_PRECISION) \<Rightarrow> 'a Cmfd_scheme \<Rightarrow> int \<Rightarrow> (int \<times> FP_PRECISION) list" where
  "generateKNearestStencil centroid_distance c fsr =
     take (nat (k_nearest c))
       (stencil_sort (map (\<lambda>cell. (cell, centroid_distance fsr cell)) [0 .. getNumCells c - 1]))"

text \<open>Modelled from the spec: \<open>Cmfd::generateKNearestStencils\<close> (body absent) stores one
  stencil per fine region in \<open>_k_nearest_stencils\<close>.\<close>

definition generateKNearestStencils ::
  "(int \<Rightarrow> int \<Rightarrow> FP_PRECISION) \<Rightarrow> 'a Cmfd_scheme \<Rightarrow> 'a Cmfd_scheme" where
  "generateKNearestStencils centroid_distance c =
     c\<lparr>k_nearest_stencils :=
         (\<lambda>fsr. if 0 \<le> fsr \<and> fsr < num_FSRs c
                then Some (generateKNearestStencil centroid_distance c fsr) else None)\<rparr>"

text \<open>No pair of the list comes before an earlier one under \<open>stencilCompare\<close>.\<close>

definition ascending_by_distance :: "(int \<times> FP_PRECISION) list \<Rightarrow> bool" where
  "ascending_by_distance st \<longleftrightarrow> sorted_wrt (\<lambda>a b. \<not> stencilCompare b a) st"

text \<open>A distance table for concrete runs: cell 1 is nearest, then cell 2, then cell 0.\<close>

definition example_distance :: "int \<Rightarrow> int \<Rightarrow> FP_PRECISION" where
  "example_distance fsr cell = (if cell = 0 then 3 else if cell = 1 then 1 else 2)"

section \<open>Flux update\<close>

text \<open>\<open>xs[i] *= v\<close>\<close>

definition mult_at :: "FP_PRECISION list \<Rightarrow> int \<Rightarrow> FP_PRECISION \<Rightarrow> FP_PRECISION list option" where
  "mult_at xs i v =
     (if 0 \<le> i \<and> i < int (length xs) then Some (xs[nat i := xs ! nat i * v]) else None)"

text \<open>
  Modelled from the spec: the flux-ratio computation of the flux-update engine (its code
  is not among the sources; \<open>Cmfd.h\<close> declares the vectors \<open>_new_flux\<close>, \<open>_old_flux\<close> and
  \<open>_flux_ratio\<close>). ``Computes \<open>flux_ratio = new_flux / old_flux\<close> per (cell, coarse group);
  guards against division by a near-zero old flux (treated as ratio = 1)''. The spec gives
  no threshold: what counts as near zero is the parameter \<open>near_zero\<close>.
\<close>

definition computeFluxRatios :: "(FP_PRECISION \<Rightarrow> bool) \<Rightarrow> 'a Cmfd_scheme \<Rightarrow> 'a Cmfd_scheme" where
  "computeFluxRatios near_zero c =
     c\<lparr>flux_ratio :=
         (\<lambda>i g. if 0 \<le> i \<and> i < getNumCells c \<and> 0 \<le> g \<and> g < num_cmfd_groups c
                then (if near_zero (old_flux c i g) then 1 else new_flux c i g / old_flux c i g)
                else flux_ratio c i g)\<rparr>"

text \<open>
  Modelled from the spec: \<open>Cmfd::getUpdateRatio(cell_id, moc_group, fsr)\<close> (declared in
  \<open>Cmfd.h\<close>, body absent). ``If centroid-based updating is enabled, interpolates the ratio
  from its k-nearest coarse-cell centroids using inverse-distance weighting (closer cells
  weighted more heavily; weights normalized to sum to 1); otherwise uses the ratio of the
  single containing coarse cell directly.'' The weight given to a distance before
  normalisation is the parameter \<open>weight_of\<close>; weights whose total is zero cannot be
  normalised, and a region without a stencil cannot be interpolated: both are undefined
  (\<open>None\<close>).
\<close>

definition getUpdateRatio ::
  "(FP_PRECISION \<Rightarrow> FP_PRECISION) \<Rightarrow> 'a Cmfd_scheme \<Rightarrow> int \<Rightarrow> int \<Rightarrow> int \<Rightarrow> FP_PRECISION option" where
  "getUpdateRatio weight_of c cell_id moc_group fsr =
     do {
       cmfd_group \<leftarrow> getCmfdGroup c moc_group;
       if centroid_update_on c then
         do {
           stencil \<leftarrow> k_nearest_stencils c fsr;
           let total = sum_list (map (\<lambda>e. weight_of (snd e)) stencil);
           if total = 0 then None
           else Some (sum_list (map (\<lambda>e. weight_of (snd e) / total * flux_ratio c (fst e) cmfd_group)
                                    stencil))
         }
       else Some (flux_ratio c cell_id cmfd_group)
     }"

text \<open>
  Modelled from the spec: the innermost step of \<open>Cmfd::updateMOCFlux\<close> (declared in
  \<open>Cmfd.h\<close>, body absent). After the ratios are computed, for every coarse cell, every fine
  region of the cell (\<open>_cell_fsrs\<close>) and every fine group, the region's flux, stored at
  \<open>fsr * num_moc_groups + e\<close>, is multiplied by the update ratio: ``the coarse-group ratio
  applied uniformly across all fine groups that map to that coarse group''.
\<close>

definition update_group ::
  "(FP_PRECISION \<Rightarrow> FP_PRECISION) \<Rightarrow> 'a Cmfd_scheme \<Rightarrow> int \<Rightarrow> int \<Rightarrow> int \<Rightarrow>
   FP_PRECISION list \<Rightarrow> FP_PRECISION list option" where
  "update_group weight_of c cell_id fsr e fluxes =
     do {
       update_ratio \<leftarrow> getUpdateRatio weight_of c cell_id e fsr;
       mult_at fluxes (fsr * num_moc_groups c + e) update_ratio
     }"

text \<open>Modelled from the spec: the loops of \<open>Cmfd::updateMOCFlux\<close> (body absent) over the
  fine regions of one coarse cell and the fine groups of each region.\<close>

definition update_cell ::
  "(FP_PRECISION \<Rightarrow> FP_PRECISION) \<Rightarrow> 'a Cmfd_scheme \<Rightarrow> int \<Rightarrow>
   FP_PRECISION list \<Rightarrow> FP_PRECISION list option" where
  "update_cell weight_of c cell_id fluxes =
     do {
       fsrs \<leftarrow> read_at (cell_fsrs c) cell_id;
       for_each fsrs
         (\<lambda>fsr. for_each [0 .. num_moc_groups c - 1] (update_group weight_of c cell_id fsr))
         fluxes
     }"

text \<open>Modelled from the spec: \<open>Cmfd::updateMOCFlux\<close> (body absent): the ratios, then the
  loop over the coarse cells.\<close>

definition updateMOCFlux ::
  "(FP_PRECISION \<Rightarrow> bool) \<Rightarrow> (FP_PRECISION \<Rightarrow> FP_PRECISION) \<Rightarrow>
   'a Cmfd_scheme \<Rightarrow> 'a Cmfd_scheme option" where
  "updateMOCFlux near_zero weight_of c =
     (let c1 = computeFluxRatios near_zero c in
      do {
        fluxes \<leftarrow> for_each [0 .. getNumCells c1 - 1] (update_cell weight_of c1) (FSR_fluxes c1);
        Some (c1\<lparr>FSR_fluxes := fluxes\<rparr>)
      })"

text \<open>The inputs under which the update is defined: every coarse cell has its list of
  regions, the group map sends every fine group to a coarse group, every flux index is
  inside \<open>FSR_fluxes\<close>, and with centroid updating every region has a stencil of coarse
  cells whose weights can be normalised.\<close>

definition stencil_ok :: "(FP_PRECISION \<Rightarrow> FP_PRECISION) \<Rightarrow> 'a Cmfd_scheme \<Rightarrow> int \<Rightarrow> bool" where
  "stencil_ok weight_of c fsr \<longleftrightarrow>
     (case k_nearest_stencils c fsr of
        None \<Rightarrow> False
      | Some stencil \<Rightarrow>
          sum_list (map (\<lambda>e. weight_of (snd e)) stencil) \<noteq> 0 \<and>
          (\<forall>e \<in> set stencil. 0 \<le> fst e \<and> fst e < getNumCells c))"

definition update_inputs_ok :: "(FP_PRECISION \<Rightarrow> FP_PRECISION) \<Rightarrow> 'a Cmfd_scheme \<Rightarrow> bool" where
  "update_inputs_ok weight_of c \<longleftrightarrow>
     getNumCells c \<le> int (length (cell_fsrs c)) \<and>
     (\<forall>e \<in> set [0 .. num_moc_groups c - 1].
        e < int (length (group_indices_map c)) \<and>
        0 \<le> group_indices_map c ! nat e \<and> group_indices_map c ! nat e < num_cmfd_groups c) \<and>
     (\<forall>i \<in> set [0 .. getNumCells c - 1]. \<forall>fsr \<in> set (cell_fsrs c ! nat i).
        (centroid_update_on c \<longrightarrow> stencil_ok weight_of c fsr) \<and>
        (\<forall>e \<in> set [0 .. num_moc_groups c - 1].
           0 \<le> fsr * num_moc_groups c + e \<and>
           fsr * num_moc_groups c + e < int (length (FSR_fluxes c))))"

text \<open>Objects for concrete runs: a guard with threshold \<open>1/1000\<close>, the weight \<open>1/d\<close>, and
  an object with centroid updating and equal old and new coarse fluxes, zero in cell 1.\<close>

definition example_near_zero :: "FP_PRECISION \<Rightarrow> bool" where
  "example_near_zero x \<longleftrightarrow> \<bar>x\<bar> < 1 / 1000"

definition example_weight :: "FP_PRECISION \<Rightarrow> FP_PRECISION" where
  "example_weight d = 1 / d"

definition example_centroid_cmfd :: Cmfd where
  "example_centroid_cmfd =
     example_cmfd\<lparr>new_flux := (\<lambda>i g. if i = 0 then 2 else 0),
                  old_flux := (\<lambda>i g. if i = 0 then 2 else 0),
                  centroid_update_on := True,
                  k_nearest_stencils := [0 \<mapsto> [(0, 1), (1, 3)], 1 \<mapsto> [(1, 1), (0, 3)]]\<rparr>"

section \<open>Loops that scatter additions into an array\<close>

lemma for_each_scatter:
  assumes "\<forall>i \<in> set is. \<forall>cur. length cur = n \<longrightarrow> body i cur = add_at cur (G i) (V i)"
    and "\<forall>i \<in> set is. 0 \<le> G i \<and> G i < int n"
    and "length cur = n"
  shows "for_each is body cur =
         Some (map (\<lambda>g. cur ! g + sum_list (map V (filter (\<lambda>i. G i = int g) is))) [0..<n])"
  using assms
proof (induction "is" arbitrary: cur)
  case Nil
  then show ?case by (simp add: list_eq_iff_nth_eq)
next
  case (Cons i "is")
  let ?cur = "cur[nat (G i) := cur ! nat (G i) + V i]"
  have b: "body i cur = Some ?cur"
    using Cons.prems by (simp add: add_at_def)
  have len: "length ?cur = n" using Cons.prems by simp
  have ih: "for_each is body ?cur =
         Some (map (\<lambda>g. ?cur ! g + sum_list (map V (filter (\<lambda>i. G i = int g) is))) [0..<n])"
    using Cons.IH [of ?cur] Cons.prems len by simp
  have "map (\<lambda>g. ?cur ! g + sum_list (map V (filter (\<lambda>i. G i = int g) is))) [0..<n]
      = map (\<lambda>g. cur ! g + sum_list (map V (filter (\<lambda>i. G i = int g) (i # is)))) [0..<n]"
  proof (rule map_cong [OF refl])
    fix g assume "g \<in> set [0..<n]"
    then have g: "g < length cur" using Cons.prems by simp
    show "?cur ! g + sum_list (map V (filter (\<lambda>i. G i = int g) is))
        = cur ! g + sum_list (map V (filter (\<lambda>i. G i = int g) (i # is)))"
    proof (cases "G i = int g")
      case True
      then show ?thesis using g by simp
    next
      case False
      then have "nat (G i) \<noteq> g" using Cons.prems(2) by auto
      then show ?thesis using False by simp
    qed
  qed
  then show ?case using b ih by simp
qed

text \<open>The same for a loop state that carries a counter next to the array.\<close>
lemma for_each_scatter_counter:
  assumes "\<forall>i \<in> set is. \<forall>cur. length cur = n \<longrightarrow>
             body i (cur, K i) = map_option (\<lambda>cur'. (cur', K i + d)) (add_at cur (G i) (V i))"
    and "\<forall>i \<in> set is. 0 \<le> G i \<and> G i < int n"
    and "length cur = n"
    and "\<forall>k < length is. K (is ! k) = k0 + int k * d"
  shows "for_each is body (cur, k0) =
         Some (map (\<lambda>g. cur ! g + sum_list (map V (filter (\<lambda>i. G i = int g) is))) [0..<n],
               k0 + int (length is) * d)"
  using assms
proof (induction "is" arbitrary: cur k0)
  case Nil
  then show ?case by (simp add: list_eq_iff_nth_eq)
next
  case (Cons i "is")
  let ?cur = "cur[nat (G i) := cur ! nat (G i) + V i]"
  have K0: "K i = k0" using Cons.prems(4) by auto
  have b: "body i (cur, k0) = Some (?cur, k0 + d)"
    using Cons.prems(1-3) K0 by (simp add: add_at_def)
  have len: "length ?cur = n" using Cons.prems by simp
  have Ks: "\<forall>k < length is. K (is ! k) = (k0 + d) + int k * d"
  proof (intro allI impI)
    fix k assume "k < length is"
    then have "K ((i # is) ! Suc k) = k0 + int (Suc k) * d"
      using Cons.prems(4) by (metis Suc_less_eq length_Cons)
    then show "K (is ! k) = (k0 + d) + int k * d" by (simp add: algebra_simps)
  qed
  have ih: "for_each is body (?cur, k0 + d) =
         Some (map (\<lambda>g. ?cur ! g + sum_list (map V (filter (\<lambda>i. G i = int g) is))) [0..<n],
               (k0 + d) + int (length is) * d)"
    using Cons.IH [of ?cur "k0 + d"] Cons.prems(1,2) len Ks by simp
  have "map (\<lambda>g. ?cur ! g + sum_list (map V (filter (\<lambda>i. G i = int g) is))) [0..<n]
      = map (\<lambda>g. cur ! g + sum_list (map V (filter (\<lambda>i. G i = int g) (i # is)))) [0..<n]"
  proof (rule map_cong [OF refl])
    fix g assume "g \<in> set [0..<n]"
    then have g: "g < length cur" using Cons.prems by simp
    show "?cur ! g + sum_list (map V (filter (\<lambda>i. G i = int g) is))
        = cur ! g + sum_list (map V (filter (\<lambda>i. G i = int g) (i # is)))"
    proof (cases "G i = int g")
      case True
      then show ?thesis using g by simp
    next
      case False
      then have "nat (G i) \<noteq> g" using Cons.prems(2) by auto
      then show ?thesis using False by simp
    qed
  qed
  then show ?case using b ih by (simp add: algebra_simps)
qed

lemma for_each_polar:
  assumes "0 \<le> g" "g < int (length cur)" "0 \<le> b + lo" "b + hi < int (length tf)"
  shows "for_each [lo..hi] (tally2D_polar c tf azim g) (cur, b + lo) =
         Some (cur[nat g := cur ! nat g +
                  sum_list (map (\<lambda>p. tf ! nat (b + p) * quadrature c azim p) [lo..hi])],
               b + (if lo \<le> hi then hi + 1 else lo))"
  using assms
proof (induction "nat (hi + 1 - lo)" arbitrary: lo cur)
  case 0
  then have "[lo..hi] = []" by simp
  then show ?case using 0 by simp
next
  case (Suc k)
  then have le: "lo \<le> hi" by simp
  then have u: "[lo..hi] = lo # [lo + 1..hi]" by (simp add: upto_rec1)
  let ?v = "tf ! nat (b + lo) * quadrature c azim lo"
  let ?cur = "cur[nat g := cur ! nat g + ?v]"
  have step: "tally2D_polar c tf azim g lo (cur, b + lo) = Some (?cur, b + (lo + 1))"
    using Suc.prems le by (simp add: tally2D_polar_def read_at_def add_at_def add.assoc)
  have ih: "for_each [lo + 1..hi] (tally2D_polar c tf azim g) (?cur, b + (lo + 1)) =
         Some (?cur[nat g := ?cur ! nat g +
                  sum_list (map (\<lambda>p. tf ! nat (b + p) * quadrature c azim p) [lo + 1..hi])],
               b + (if lo + 1 \<le> hi then hi + 1 else lo + 1))"
    using Suc.hyps(1) [of "lo + 1" ?cur] Suc.hyps(2) Suc.prems by simp
  show ?case
    using Suc.prems le by (simp add: u step ih add.assoc)
qed

section \<open>The local array of condensed currents\<close>

lemma tallyCurrent_crossing:
  assumes "matched_tag seg fwd \<noteq> - 1"
  shows "tallyCurrent NS seg tf az po fwd c =
         do {
           currents \<leftarrow> segment_currents c tf az po;
           sc \<leftarrow> incrementValues (matched_tag seg fwd sdiv NS)
                   (matched_tag seg fwd smod NS * num_cmfd_groups c)
                   ((matched_tag seg fwd smod NS + 1) * num_cmfd_groups c - 1)
                   currents (surface_currents c);
           Some (c\<lparr>surface_currents := sc\<rparr>)
         }"
proof -
  have split2: "(r \<bind> (\<lambda>(currents', pe). F currents')) = (map_option fst r \<bind> F)"
    for r :: "(FP_PRECISION list \<times> int) option" and F :: "FP_PRECISION list \<Rightarrow> 'b option"
    by (cases r) auto
  show ?thesis
  proof (cases fwd)
    case True
    with assms show ?thesis
      by (simp add: tallyCurrent_def matched_tag_def segment_currents_def Let_def split2)
  next
    case False
    with assms show ?thesis
      by (simp add: tallyCurrent_def matched_tag_def segment_currents_def Let_def split2)
  qed
qed

lemma segment_currents_3D:
  assumes ok: "tally_inputs_ok c tf" and s3: "solve_3D c"
  shows "segment_currents c tf az po =
         Some (map (\<lambda>g. condensed_current c tf az po (int g)) [0..<nat (num_cmfd_groups c)])"
proof -
  let ?n = "nat (num_cmfd_groups c)"
  let ?es = "[0 .. num_moc_groups c - 1]"
  let ?G = "\<lambda>e. group_indices_map c ! nat e"
  let ?V = "\<lambda>e. tf ! nat e * quadrature c az po"
  have body: "\<forall>e \<in> set ?es. \<forall>cur. length cur = ?n \<longrightarrow>
      tally3D_body c tf (quadrature c az po) e cur = add_at cur (?G e) (?V e)"
    using ok s3 by (auto simp: tally_inputs_ok_def tally3D_body_def getCmfdGroup_def read_at_def)
  have rng: "\<forall>e \<in> set ?es. 0 \<le> ?G e \<and> ?G e < int ?n"
    using ok by (auto simp: tally_inputs_ok_def)
  have "for_each ?es (tally3D_body c tf (quadrature c az po)) (replicate ?n 0) =
        Some (map (\<lambda>g. replicate ?n 0 ! g + sum_list (map ?V (filter (\<lambda>e. ?G e = int g) ?es))) [0..<?n])"
    by (rule for_each_scatter [OF body rng]) simp
  moreover have "map (\<lambda>g. replicate ?n 0 ! g + sum_list (map ?V (filter (\<lambda>e. ?G e = int g) ?es))) [0..<?n]
      = map (\<lambda>g. condensed_current c tf az po (int g)) [0..<?n]"
  proof -
    have "fine_group_contribution c tf az po = ?V"
      using s3 by (simp add: fun_eq_iff fine_group_contribution_def)
    then show ?thesis by (simp add: condensed_current_def)
  qed
  ultimately show ?thesis using s3 by (simp add: segment_currents_def)
qed

lemma segment_currents_2D:
  assumes ok: "tally_inputs_ok c tf" and s3: "\<not> solve_3D c"
  shows "segment_currents c tf az po =
         Some (map (\<lambda>g. condensed_current c tf az po (int g)) [0..<nat (num_cmfd_groups c)])"
proof -
  let ?n = "nat (num_cmfd_groups c)"
  let ?np = "num_polar c sdiv 2"
  let ?d = "if 0 \<le> ?np - 1 then ?np else 0"
  let ?es = "[0 .. num_moc_groups c - 1]"
  let ?G = "\<lambda>e. group_indices_map c ! nat e"
  let ?V = "\<lambda>e. sum_list (map (\<lambda>p. tf ! nat (e * ?np + p) * quadrature c az p) [0 .. ?np - 1])"
  let ?K = "\<lambda>e. e * ?d"
  have body: "\<forall>e \<in> set ?es. \<forall>cur. length cur = ?n \<longrightarrow>
      tally2D_body c tf az e (cur, ?K e) = map_option (\<lambda>cur'. (cur', ?K e + ?d)) (add_at cur (?G e) (?V e))"
  proof (intro ballI allI impI)
    fix e and cur :: "FP_PRECISION list"
    assume e: "e \<in> set ?es" and len: "length cur = ?n"
    have g: "0 \<le> ?G e" "?G e < int (length cur)" and gm: "e < int (length (group_indices_map c))"
      using ok e len by (auto simp: tally_inputs_ok_def)
    have e0: "0 \<le> e" using e by simp
    have hi: "?K e + (?np - 1) < int (length tf)"
    proof (cases "0 \<le> ?np - 1")
      case True
      then have "?np - 1 \<in> set [0 .. ?np - 1]" by simp
      then have "e * ?np + (?np - 1) < int (length tf)"
        using ok e s3 unfolding tally_inputs_ok_def by (metis (no_types, lifting))
      then show ?thesis using True by simp
    next
      case False
      then show ?thesis by simp
    qed
    have lo: "0 \<le> ?K e + 0" using e0 by simp
    have "for_each [0 .. ?np - 1] (tally2D_polar c tf az (?G e)) (cur, ?K e + 0) =
         Some (cur[nat (?G e) := cur ! nat (?G e) +
                  sum_list (map (\<lambda>p. tf ! nat (?K e + p) * quadrature c az p) [0 .. ?np - 1])],
               ?K e + (if 0 \<le> ?np - 1 then ?np - 1 + 1 else 0))"
      by (rule for_each_polar [OF g lo hi])
    moreover have "sum_list (map (\<lambda>p. tf ! nat (?K e + p) * quadrature c az p) [0 .. ?np - 1]) = ?V e"
      by (cases "0 \<le> ?np - 1") simp_all
    ultimately show "tally2D_body c tf az e (cur, ?K e) =
        map_option (\<lambda>cur'. (cur', ?K e + ?d)) (add_at cur (?G e) (?V e))"
      using g e0 gm by (simp add: tally2D_body_def getCmfdGroup_def read_at_def add_at_def)
  qed
  have rng: "\<forall>e \<in> set ?es. 0 \<le> ?G e \<and> ?G e < int ?n"
    using ok by (auto simp: tally_inputs_ok_def)
  have idx: "\<forall>k < length ?es. ?K (?es ! k) = 0 + int k * ?d"
    by simp
  have "for_each ?es (tally2D_body c tf az) (replicate ?n 0, 0) =
        Some (map (\<lambda>g. replicate ?n 0 ! g + sum_list (map ?V (filter (\<lambda>e. ?G e = int g) ?es))) [0..<?n],
              0 + int (length ?es) * ?d)"
    by (rule for_each_scatter_counter [OF body rng _ idx]) simp
  moreover have "map (\<lambda>g. replicate ?n 0 ! g + sum_list (map ?V (filter (\<lambda>e. ?G e = int g) ?es))) [0..<?n]
      = map (\<lambda>g. condensed_current c tf az po (int g)) [0..<?n]"
  proof -
    have "fine_group_contribution c tf az po = ?V"
      using s3 by (simp add: fun_eq_iff fine_group_contribution_def)
    then show ?thesis by (simp add: condensed_current_def)
  qed
  ultimately show ?thesis using s3 by (simp add: segment_currents_def)
qed

lemma segment_currents_ok:
  "tally_inputs_ok c tf \<Longrightarrow>
   segment_currents c tf az po =
     Some (map (\<lambda>g. condensed_current c tf az po (int g)) [0..<nat (num_cmfd_groups c)])"
  by (cases "solve_3D c") (simp_all add: segment_currents_3D segment_currents_2D)

lemma for_each_invariant:
  assumes "for_each is body s = Some s'" and "P s"
    and "\<And>i t t'. P t \<Longrightarrow> body i t = Some t' \<Longrightarrow> P t'"
  shows "P s'"
  using assms(1,2)
proof (induction "is" arbitrary: s)
  case Nil
  then show ?case by simp
next
  case (Cons i "is")
  then obtain t where t: "body i s = Some t" "for_each is body t = Some s'"
    by (auto split: option.splits)
  with Cons.prems(2) assms(3) have "P t" by blast
  with Cons.IH t show ?case by blast
qed

lemma add_at_length: "add_at cur g v = Some cur' \<Longrightarrow> length cur' = length cur"
  by (auto simp: add_at_def split: if_splits)

lemma tally3D_body_length:
  "tally3D_body c tf w e cur = Some cur' \<Longrightarrow> length cur' = length cur"
  by (auto simp: tally3D_body_def dest: add_at_length split: bind_splits)

lemma tally2D_polar_length:
  "tally2D_polar c tf az g p st = Some st' \<Longrightarrow> length (fst st') = length (fst st)"
  by (cases st) (auto simp: tally2D_polar_def dest: add_at_length split: bind_splits)

lemma tally2D_body_length:
  assumes "tally2D_body c tf az e st = Some st'"
  shows "length (fst st') = length (fst st)"
proof -
  from assms obtain g where
    "for_each [0 .. num_polar c sdiv 2 - 1] (tally2D_polar c tf az g) st = Some st'"
    by (auto simp: tally2D_body_def split: bind_splits)
  then show ?thesis
    by (rule for_each_invariant [where P = "\<lambda>t. length (fst t) = length (fst st)"])
       (simp_all add: tally2D_polar_length)
qed

lemma segment_currents_length:
  assumes "segment_currents c tf az po = Some cur"
  shows "length cur = nat (num_cmfd_groups c)"
proof (cases "solve_3D c")
  case True
  with assms have "for_each [0 .. num_moc_groups c - 1]
          (tally3D_body c tf (quadrature c az po)) (replicate (nat (num_cmfd_groups c)) 0) = Some cur"
    by (simp add: segment_currents_def)
  then show ?thesis
    by (rule for_each_invariant [where P = "\<lambda>t. length t = nat (num_cmfd_groups c)"])
       (simp_all add: tally3D_body_length)
next
  case False
  with assms obtain pe where "for_each [0 .. num_moc_groups c - 1] (tally2D_body c tf az)
            (replicate (nat (num_cmfd_groups c)) 0, 0) = Some (cur, pe)"
    by (auto simp: segment_currents_def)
  then have "length (fst (cur, pe)) = nat (num_cmfd_groups c)"
    by (rule for_each_invariant [where P = "\<lambda>t. length (fst t) = nat (num_cmfd_groups c)"])
       (simp_all add: tally2D_body_length)
  then show ?thesis by simp
qed

lemma incrementValues_surface:
  assumes "length vals = nat ncg"
  shows "incrementValues cell (s * ncg) ((s + 1) * ncg - 1) vals v =
         Some (\<lambda>i j. if i = cell \<and> s * ncg \<le> j \<and> j \<le> (s + 1) * ncg - 1
                      then v i j + vals ! nat (j - s * ncg) else v i j)"
proof -
  have "(s + 1) * ncg - 1 - s * ncg = ncg - 1"
    by (simp add: algebra_simps)
  then have "(s + 1) * ncg - 1 < s * ncg \<or> (s + 1) * ncg - 1 - s * ncg < int (length vals)"
    using assms by linarith
  then show ?thesis
    unfolding incrementValues_def by (rule if_P)
qed

lemma tallyCurrent_store:
  assumes "matched_tag seg fwd \<noteq> - 1"
  shows "tallyCurrent NS seg tf az po fwd c =
         map_option (\<lambda>currents. c\<lparr>surface_currents :=
           \<lambda>i j. if i = matched_tag seg fwd sdiv NS
                     \<and> matched_tag seg fwd smod NS * num_cmfd_groups c \<le> j
                     \<and> j \<le> (matched_tag seg fwd smod NS + 1) * num_cmfd_groups c - 1
                  then surface_currents c i j
                       + currents ! nat (j - matched_tag seg fwd smod NS * num_cmfd_groups c)
                  else surface_currents c i j\<rparr>)
           (segment_currents c tf az po)"
proof (cases "segment_currents c tf az po")
  case None
  then show ?thesis by (simp add: tallyCurrent_crossing [OF assms])
next
  case (Some cur)
  then have "length cur = nat (num_cmfd_groups c)" by (rule segment_currents_length)
  then show ?thesis
    by (simp add: tallyCurrent_crossing [OF assms] Some incrementValues_surface)
qed


lemma tallyCurrent_skip:
  "matched_tag seg fwd = - 1 \<Longrightarrow> tallyCurrent NS seg tf az po fwd c = Some c"
  by (cases fwd) (simp_all add: tallyCurrent_def matched_tag_def Let_def)

lemma segment_currents_store_indep:
  "segment_currents (c\<lparr>surface_currents := s\<rparr>) tf az po = segment_currents c tf az po"
proof -
  have b3: "tally3D_body (c\<lparr>surface_currents := s\<rparr>) tf w = tally3D_body c tf w" for w
    by (simp add: fun_eq_iff tally3D_body_def getCmfdGroup_def)
  have bp: "tally2D_polar (c\<lparr>surface_currents := s\<rparr>) tf az g = tally2D_polar c tf az g" for g
    by (simp add: fun_eq_iff tally2D_polar_def)
  have b2: "tally2D_body (c\<lparr>surface_currents := s\<rparr>) tf az = tally2D_body c tf az"
    by (simp add: fun_eq_iff tally2D_body_def getCmfdGroup_def bp)
  show ?thesis
    by (simp add: segment_currents_def b3 b2)
qed

text \<open>A tally adds to the store an increment that does not depend on the store.\<close>

lemma tallyCurrent_delta:
  "tallyCurrent NS seg tf az po fwd c =
     map_option (\<lambda>c0. c\<lparr>surface_currents := \<lambda>i j. surface_currents c i j + surface_currents c0 i j\<rparr>)
       (tallyCurrent NS seg tf az po fwd (c\<lparr>surface_currents := \<lambda>_ _. 0\<rparr>))"
proof (cases "matched_tag seg fwd = - 1")
  case True
  then show ?thesis by (simp add: tallyCurrent_skip)
next
  case False
  show ?thesis
    by (cases "segment_currents c tf az po")
       (simp_all add: tallyCurrent_store [OF False] segment_currents_store_indep fun_eq_iff)
qed

lemma tally_call_delta:
  "tally_call NS a c =
     map_option (\<lambda>c0. c\<lparr>surface_currents := \<lambda>i j. surface_currents c i j + surface_currents c0 i j\<rparr>)
       (tally_call NS a (c\<lparr>surface_currents := \<lambda>_ _. 0\<rparr>))"
  unfolding tally_call_def by (cases a) (simp add: tallyCurrent_delta [symmetric])

lemma tally_call_twice:
  "tally_call NS x c \<bind> tally_call NS y =
     (case tally_call NS x (c\<lparr>surface_currents := \<lambda>_ _. 0\<rparr>) of
        None \<Rightarrow> None
      | Some cx \<Rightarrow>
          (case tally_call NS y (c\<lparr>surface_currents := \<lambda>_ _. 0\<rparr>) of
             None \<Rightarrow> None
           | Some cy \<Rightarrow> Some (c\<lparr>surface_currents :=
               \<lambda>i j. surface_currents c i j + surface_currents cx i j + surface_currents cy i j\<rparr>)))"
proof (cases "tally_call NS x (c\<lparr>surface_currents := \<lambda>_ _. 0\<rparr>)")
  case None
  then have "tally_call NS x c = None"
    using tally_call_delta [of NS x c] by simp
  with None show ?thesis by simp
next
  case (Some cx)
  let ?c1 = "c\<lparr>surface_currents := \<lambda>i j. surface_currents c i j + surface_currents cx i j\<rparr>"
  have x: "tally_call NS x c = Some ?c1"
    using tally_call_delta [of NS x c] Some by simp
  have z: "?c1\<lparr>surface_currents := \<lambda>_ _. 0\<rparr> = c\<lparr>surface_currents := \<lambda>_ _. 0\<rparr>"
    by simp
  have y: "tally_call NS y ?c1 =
      map_option (\<lambda>c0. ?c1\<lparr>surface_currents :=
          \<lambda>i j. surface_currents ?c1 i j + surface_currents c0 i j\<rparr>)
        (tally_call NS y (c\<lparr>surface_currents := \<lambda>_ _. 0\<rparr>))"
    using tally_call_delta [of NS y ?c1] unfolding z .
  show ?thesis
  proof (cases "tally_call NS y (c\<lparr>surface_currents := \<lambda>_ _. 0\<rparr>)")
    case None
    with y have "tally_call NS y ?c1 = None" by simp
    with x Some None show ?thesis by simp
  next
    case (Some cy)
    with y have "tally_call NS y ?c1 = Some (c\<lparr>surface_currents :=
               \<lambda>i j. surface_currents c i j + surface_currents cx i j + surface_currents cy i j\<rparr>)"
      by simp
    with x \<open>tally_call NS x (c\<lparr>surface_currents := \<lambda>_ _. 0\<rparr>) = Some cx\<close> Some
    show ?thesis by simp
  qed
qed

lemma tally_call_commute:
  "tally_call NS a c \<bind> tally_call NS b = tally_call NS b c \<bind> tally_call NS a"
proof -
  have "(\<lambda>i j. surface_currents c i j + surface_currents ca i j + surface_currents cb i j)
      = (\<lambda>i j. surface_currents c i j + surface_currents cb i j + surface_currents ca i j)"
    for ca cb :: "'a Cmfd_scheme"
    by (simp add: fun_eq_iff)
  then show ?thesis
    unfolding tally_call_twice by (simp split: option.splits)
qed

lemma for_each_fold:
  "for_each xs body s = fold (\<lambda>x r. r \<bind> body x) xs (Some s)"
proof -
  have none: "fold (\<lambda>x r. r \<bind> body x) ys None = None" for ys
    by (induction ys) simp_all
  show ?thesis
  proof (induction xs arbitrary: s)
    case Nil
    then show ?case by simp
  next
    case (Cons x xs)
    then show ?case by (cases "body x s") (simp_all add: none)
  qed
qed


lemma condensed_current_store_indep:
  "condensed_current (c\<lparr>surface_currents := s\<rparr>) tf az po = condensed_current c tf az po"
proof -
  have "fine_group_contribution (c\<lparr>surface_currents := s\<rparr>) tf az po
      = fine_group_contribution c tf az po"
    by (rule ext) (simp add: fine_group_contribution_def)
  then show ?thesis
    by (intro ext) (simp add: condensed_current_def)
qed

lemma tally_call_ok:
  assumes "tally_inputs_ok c (fst (snd call))"
  shows "tally_call NS call c =
         Some (c\<lparr>surface_currents := \<lambda>i j. surface_currents c i j + call_contribution NS c call i j\<rparr>)"
proof -
  obtain seg tf az po fwd where call: "call = (seg, tf, az, po, fwd)"
    by (cases call) auto
  show ?thesis
  proof (cases "matched_tag seg fwd = - 1")
    case True
    then show ?thesis
      by (simp add: call tally_call_def tallyCurrent_skip call_contribution_def)
  next
    case False
    have ok: "tally_inputs_ok c tf" using assms call by simp
    let ?first = "matched_tag seg fwd smod NS * num_cmfd_groups c"
    let ?last = "(matched_tag seg fwd smod NS + 1) * num_cmfd_groups c - 1"
    have nth: "map (\<lambda>g. condensed_current c tf az po (int g)) [0..<nat (num_cmfd_groups c)]
                 ! nat (j - ?first) = condensed_current c tf az po (j - ?first)"
      if "?first \<le> j" "j \<le> ?last" for j
    proof -
      have "j - ?first < num_cmfd_groups c" using that by (simp add: algebra_simps)
      then have "nat (j - ?first) < nat (num_cmfd_groups c)" using that by linarith
      then show ?thesis using that by simp
    qed
    have "(\<lambda>i j. if i = matched_tag seg fwd sdiv NS \<and> ?first \<le> j \<and> j \<le> ?last
                  then surface_currents c i j
                       + map (\<lambda>g. condensed_current c tf az po (int g)) [0..<nat (num_cmfd_groups c)]
                           ! nat (j - ?first)
                  else surface_currents c i j)
        = (\<lambda>i j. surface_currents c i j + call_contribution NS c call i j)"
      using False nth by (auto simp: fun_eq_iff call call_contribution_def Let_def)
    then show ?thesis
      by (simp add: call tally_call_def tallyCurrent_store [OF False] segment_currents_ok [OF ok])
  qed
qed

lemma tally_all_total:
  assumes "\<forall>call \<in> set calls. tally_inputs_ok c (fst (snd call))"
  shows "tally_all NS calls c =
         Some (c\<lparr>surface_currents :=
                  \<lambda>i j. surface_currents c i j
                        + sum_list (map (\<lambda>call. call_contribution NS c call i j) calls)\<rparr>)"
proof -
  have "for_each calls (tally_call NS) (c\<lparr>surface_currents := s\<rparr>) =
         Some (c\<lparr>surface_currents :=
                  \<lambda>i j. s i j + sum_list (map (\<lambda>call. call_contribution NS c call i j) calls)\<rparr>)"
    for s
    using assms
  proof (induction calls arbitrary: s)
    case Nil
    then show ?case by simp
  next
    case (Cons a calls)
    let ?c = "c\<lparr>surface_currents := s\<rparr>"
    have ok: "tally_inputs_ok ?c (fst (snd a))"
      using Cons.prems by (simp add: tally_inputs_ok_def)
    have contrib: "call_contribution NS ?c a = call_contribution NS c a"
      by (cases a) (simp add: fun_eq_iff call_contribution_def condensed_current_store_indep Let_def)
    have "tally_call NS a ?c =
          Some (c\<lparr>surface_currents := \<lambda>i j. s i j + call_contribution NS c a i j\<rparr>)"
      using tally_call_ok [OF ok, of NS] by (simp add: contrib)
    moreover have "for_each calls (tally_call NS)
          (c\<lparr>surface_currents := \<lambda>i j. s i j + call_contribution NS c a i j\<rparr>) =
         Some (c\<lparr>surface_currents :=
                  \<lambda>i j. (s i j + call_contribution NS c a i j)
                        + sum_list (map (\<lambda>call. call_contribution NS c call i j) calls)\<rparr>)"
      using Cons.IH [of "\<lambda>i j. s i j + call_contribution NS c a i j"] Cons.prems by simp
    ultimately show ?case by (simp add: add.assoc)
  qed
  from this [of "surface_currents c"] show ?thesis by (simp add: tally_all_def)
qed

lemma upto_0_1: "[0..1] = [0, 1]" by (simp add: upto_rec1)
lemma upto_0_2: "[0..2] = [0, 1, 2]" by (simp add: upto_rec1)

lemma example_inputs_ok: "tally_inputs_ok example_cmfd [1, 2, 3, 4, 5, 6]"
  by (simp add: tally_inputs_ok_def example_cmfd_def upto_0_1 upto_0_2)

lemma example_condensed_0: "condensed_current example_cmfd [1, 2, 3, 4, 5, 6] 0 0 0 = 7 / 2"
  by (simp add: condensed_current_def fine_group_contribution_def example_cmfd_def upto_0_1 upto_0_2)

lemma example_condensed_1: "condensed_current example_cmfd [1, 2, 3, 4, 5, 6] 0 0 1 = 4"
  by (simp add: condensed_current_def fine_group_contribution_def example_cmfd_def upto_0_1 upto_0_2)


lemma tallyCurrent_tallied:
  assumes tag: "matched_tag seg fwd \<noteq> - 1" and ok: "tally_inputs_ok c tf"
  shows "tallyCurrent NS seg tf az po fwd c =
         Some (c\<lparr>surface_currents :=
           \<lambda>i j. if i = matched_tag seg fwd sdiv NS
                     \<and> matched_tag seg fwd smod NS * num_cmfd_groups c \<le> j
                     \<and> j \<le> (matched_tag seg fwd smod NS + 1) * num_cmfd_groups c - 1
                  then surface_currents c i j
                       + condensed_current c tf az po
                           (j - matched_tag seg fwd smod NS * num_cmfd_groups c)
                  else surface_currents c i j\<rparr>)"
proof -
  have "(\<lambda>i j. surface_currents c i j + call_contribution NS c (seg, tf, az, po, fwd) i j)
      = (\<lambda>i j. if i = matched_tag seg fwd sdiv NS
                     \<and> matched_tag seg fwd smod NS * num_cmfd_groups c \<le> j
                     \<and> j \<le> (matched_tag seg fwd smod NS + 1) * num_cmfd_groups c - 1
                  then surface_currents c i j
                       + condensed_current c tf az po
                           (j - matched_tag seg fwd smod NS * num_cmfd_groups c)
                  else surface_currents c i j)"
    using tag by (auto simp: fun_eq_iff call_contribution_def Let_def)
  moreover have "tally_call NS (seg, tf, az, po, fwd) c =
      Some (c\<lparr>surface_currents :=
        \<lambda>i j. surface_currents c i j + call_contribution NS c (seg, tf, az, po, fwd) i j\<rparr>)"
    by (rule tally_call_ok) (simp add: ok)
  ultimately show ?thesis by (simp add: tally_call_def)
qed

lemma bind_Some_map_option: "(m \<bind> (\<lambda>x. Some (f x))) = map_option f m"
  by (cases m) simp_all

section \<open>Properties of \<open>tallyCurrent\<close>\<close>

text \<open>
  C1. For every segment whose direction-matched surface tag is not \<open>-1\<close> (and inputs
  whose array accesses are in bounds), \<open>tallyCurrent\<close> returns, and the accumulator of
  the crossed surface (cell \<open>tag / NUM_SURFACES\<close>, surface \<open>tag % NUM_SURFACES\<close>) for each
  coarse group \<open>g\<close> has grown by the sum, over the fine groups \<open>e\<close> condensed into \<open>g\<close>,
  of \<open>track_flux[e] * quadrature_weight\<close> in a 3D solve, and in a 2D solve of the sum
  over the polar half-space \<open>0 .. num_polar/2 - 1\<close> of flux times the weight of the polar
  angle. The run is one call of \<open>incrementValues\<close> on that cell and that surface's index
  range with the array of these sums.
\<close>

theorem tallyCurrent_adds_condensed_current:
  assumes "matched_tag curr_segment fwd \<noteq> - 1"
    and "tally_inputs_ok c track_flux"
  shows "tallyCurrent NUM_SURFACES curr_segment track_flux azim_index polar_index fwd c =
           map_option (\<lambda>sc. c\<lparr>surface_currents := sc\<rparr>)
             (incrementValues (matched_tag curr_segment fwd sdiv NUM_SURFACES)
                (matched_tag curr_segment fwd smod NUM_SURFACES * num_cmfd_groups c)
                ((matched_tag curr_segment fwd smod NUM_SURFACES + 1) * num_cmfd_groups c - 1)
                (map (\<lambda>g. condensed_current c track_flux azim_index polar_index (int g))
                     [0..<nat (num_cmfd_groups c)])
                (surface_currents c)) \<and>
         (\<exists>c'. tallyCurrent NUM_SURFACES curr_segment track_flux azim_index polar_index fwd c = Some c' \<and>
           (\<forall>g. 0 \<le> g \<and> g < num_cmfd_groups c \<longrightarrow>
              surface_currents c' (matched_tag curr_segment fwd sdiv NUM_SURFACES)
                (matched_tag curr_segment fwd smod NUM_SURFACES * num_cmfd_groups c + g)
              = surface_currents c (matched_tag curr_segment fwd sdiv NUM_SURFACES)
                  (matched_tag curr_segment fwd smod NUM_SURFACES * num_cmfd_groups c + g)
                + condensed_current c track_flux azim_index polar_index g))"
proof
  show "tallyCurrent NUM_SURFACES curr_segment track_flux azim_index polar_index fwd c =
           map_option (\<lambda>sc. c\<lparr>surface_currents := sc\<rparr>)
             (incrementValues (matched_tag curr_segment fwd sdiv NUM_SURFACES)
                (matched_tag curr_segment fwd smod NUM_SURFACES * num_cmfd_groups c)
                ((matched_tag curr_segment fwd smod NUM_SURFACES + 1) * num_cmfd_groups c - 1)
                (map (\<lambda>g. condensed_current c track_flux azim_index polar_index (int g))
                     [0..<nat (num_cmfd_groups c)])
                (surface_currents c))"
    by (simp add: tallyCurrent_crossing [OF assms(1)] segment_currents_ok [OF assms(2)]
        bind_Some_map_option)
  show "\<exists>c'. tallyCurrent NUM_SURFACES curr_segment track_flux azim_index polar_index fwd c = Some c' \<and>
           (\<forall>g. 0 \<le> g \<and> g < num_cmfd_groups c \<longrightarrow>
              surface_currents c' (matched_tag curr_segment fwd sdiv NUM_SURFACES)
                (matched_tag curr_segment fwd smod NUM_SURFACES * num_cmfd_groups c + g)
              = surface_currents c (matched_tag curr_segment fwd sdiv NUM_SURFACES)
                  (matched_tag curr_segment fwd smod NUM_SURFACES * num_cmfd_groups c + g)
                + condensed_current c track_flux azim_index polar_index g)"
    by (simp add: tallyCurrent_store [OF assms(1)] segment_currents_ok [OF assms(2)] algebra_simps)
qed

theorem tallyCurrent_adds_condensed_current_witness:
  "matched_tag \<lparr>cmfd_surface_fwd = 27, cmfd_surface_bwd = - 1\<rparr> True \<noteq> - 1 \<and>
   tally_inputs_ok example_cmfd [1, 2, 3, 4, 5, 6] \<and>
   (\<exists>c'. tallyCurrent 26 \<lparr>cmfd_surface_fwd = 27, cmfd_surface_bwd = - 1\<rparr>
             [1, 2, 3, 4, 5, 6] 0 0 True example_cmfd = Some c' \<and>
          surface_currents c' 1 2 = 7 / 2 \<and> surface_currents c' 1 3 = 4)"
proof -
  let ?seg = "\<lparr>cmfd_surface_fwd = 27, cmfd_surface_bwd = - 1\<rparr>"
  have tag: "matched_tag ?seg True \<noteq> - 1" by (simp add: matched_tag_def)
  obtain c' where r: "tallyCurrent 26 ?seg [1, 2, 3, 4, 5, 6] 0 0 True example_cmfd = Some c'"
    and g: "\<forall>g. 0 \<le> g \<and> g < num_cmfd_groups example_cmfd \<longrightarrow>
              surface_currents c' (matched_tag ?seg True sdiv 26)
                (matched_tag ?seg True smod 26 * num_cmfd_groups example_cmfd + g)
              = surface_currents example_cmfd (matched_tag ?seg True sdiv 26)
                  (matched_tag ?seg True smod 26 * num_cmfd_groups example_cmfd + g)
                + condensed_current example_cmfd [1, 2, 3, 4, 5, 6] 0 0 g"
    using tallyCurrent_adds_condensed_current [OF tag example_inputs_ok, of 26 0 0] by blast
  have dec: "matched_tag ?seg True sdiv 26 = 1" "matched_tag ?seg True smod 26 = 1"
    by (simp_all add: matched_tag_def signed_divide_int_def signed_modulo_int_def)
  have "surface_currents c' 1 2 = 7 / 2"
    using g [rule_format, of 0] by (simp add: dec example_condensed_0) (simp add: example_cmfd_def)
  moreover have "surface_currents c' 1 3 = 4"
    using g [rule_format, of 1] by (simp add: dec example_condensed_1) (simp add: example_cmfd_def)
  ultimately show ?thesis using tag example_inputs_ok r by blast
qed

text \<open>
  C2. For every segment and direction flag, if the surface tag matching the direction
  (the forward tag when \<open>fwd\<close> is true, the backward tag otherwise) equals \<open>-1\<close>, then
  \<open>tallyCurrent\<close> is a no-op: it returns, and the surface-current store and every
  other field of the object are as before.
\<close>

theorem tallyCurrent_no_crossing:
  "matched_tag curr_segment fwd = - 1 \<Longrightarrow>
   tallyCurrent NUM_SURFACES curr_segment track_flux azim_index polar_index fwd c = Some c"
  by (cases fwd) (simp_all add: tallyCurrent_def matched_tag_def Let_def)

theorem tallyCurrent_no_crossing_witness:
  "matched_tag \<lparr>cmfd_surface_fwd = 27, cmfd_surface_bwd = - 1\<rparr> False = - 1 \<and>
   tallyCurrent 26 \<lparr>cmfd_surface_fwd = 27, cmfd_surface_bwd = - 1\<rparr>
     [1, 2, 3, 4, 5, 6] 0 0 False example_cmfd = Some example_cmfd"
proof -
  have tag: "matched_tag \<lparr>cmfd_surface_fwd = 27, cmfd_surface_bwd = - 1\<rparr> False = - 1"
    by (simp add: matched_tag_def)
  from tallyCurrent_no_crossing [OF tag] tag show ?thesis by simp
qed

text \<open>
  C3. Current tallying is additive and order-independent, over exact arithmetic:
  started on the same object, two sequences of \<open>tallyCurrent\<close> calls that are
  permutations of each other end alike (the same object, hence the same total in every
  accumulator of every surface, or both undefined); and when the array accesses of every
  call are in bounds, the run returns and every accumulator holds its starting value plus
  the sum of what the calls contribute to it.
\<close>

theorem tally_all_order_independent:
  assumes "mset calls = mset calls'"
  shows "tally_all NUM_SURFACES calls c = tally_all NUM_SURFACES calls' c \<and>
         ((\<forall>call \<in> set calls. tally_inputs_ok c (fst (snd call))) \<longrightarrow>
            tally_all NUM_SURFACES calls' c =
              Some (c\<lparr>surface_currents :=
                \<lambda>i j. surface_currents c i j
                      + sum_list (map (\<lambda>call. call_contribution NUM_SURFACES c call i j) calls)\<rparr>))"
proof -
  let ?f = "\<lambda>x (r :: 'a Cmfd_scheme option). r \<bind> tally_call NUM_SURFACES x"
  have comm: "?f x \<circ> ?f y = ?f y \<circ> ?f x" for x y
  proof
    fix r :: "'a Cmfd_scheme option"
    show "(?f x \<circ> ?f y) r = (?f y \<circ> ?f x) r"
      by (cases r) (simp_all add: tally_call_commute [of NUM_SURFACES y _ x])
  qed
  have "fold ?f calls = fold ?f calls'"
    by (rule fold_multiset_equiv) (simp_all add: comm assms)
  then have same: "tally_all NUM_SURFACES calls c = tally_all NUM_SURFACES calls' c"
    by (simp add: tally_all_def for_each_fold)
  with tally_all_total [of calls c NUM_SURFACES] show ?thesis
    by auto
qed

theorem tally_all_order_independent_witness:
  "mset [(\<lparr>cmfd_surface_fwd = 27, cmfd_surface_bwd = - 1\<rparr>, [1, 2, 3, 4, 5, 6], 0, 0, True),
         (\<lparr>cmfd_surface_fwd = - 1, cmfd_surface_bwd = 27\<rparr>, [1, 2, 3, 4, 5, 6], 0, 0, False)]
   = mset [(\<lparr>cmfd_surface_fwd = - 1, cmfd_surface_bwd = 27\<rparr>, [1, 2, 3, 4, 5, 6], 0, 0, False),
           (\<lparr>cmfd_surface_fwd = 27, cmfd_surface_bwd = - 1\<rparr>, [1, 2, 3, 4, 5, 6], 0, 0, True)] \<and>
   tally_all 26
     [(\<lparr>cmfd_surface_fwd = 27, cmfd_surface_bwd = - 1\<rparr>, [1, 2, 3, 4, 5, 6], 0, 0, True),
      (\<lparr>cmfd_surface_fwd = - 1, cmfd_surface_bwd = 27\<rparr>, [1, 2, 3, 4, 5, 6], 0, 0, False)]
     example_cmfd
   = tally_all 26
     [(\<lparr>cmfd_surface_fwd = - 1, cmfd_surface_bwd = 27\<rparr>, [1, 2, 3, 4, 5, 6], 0, 0, False),
      (\<lparr>cmfd_surface_fwd = 27, cmfd_surface_bwd = - 1\<rparr>, [1, 2, 3, 4, 5, 6], 0, 0, True)]
     example_cmfd \<and>
   (\<exists>c'. tally_all 26
     [(\<lparr>cmfd_surface_fwd = - 1, cmfd_surface_bwd = 27\<rparr>, [1, 2, 3, 4, 5, 6], 0, 0, False),
      (\<lparr>cmfd_surface_fwd = 27, cmfd_surface_bwd = - 1\<rparr>, [1, 2, 3, 4, 5, 6], 0, 0, True)]
     example_cmfd = Some c' \<and> surface_currents c' 1 2 = 7 \<and> surface_currents c' 1 3 = 8)"
proof -
  let ?a = "(\<lparr>cmfd_surface_fwd = 27, cmfd_surface_bwd = - 1\<rparr>,
             [1, 2, 3, 4, 5, 6 :: FP_PRECISION], 0 :: int, 0 :: int, True)"
  let ?b = "(\<lparr>cmfd_surface_fwd = - 1, cmfd_surface_bwd = 27\<rparr>,
             [1, 2, 3, 4, 5, 6 :: FP_PRECISION], 0 :: int, 0 :: int, False)"
  have perm: "mset [?a, ?b] = mset [?b, ?a]" by (simp add: add.commute)
  have ok: "\<forall>call \<in> set [?a, ?b]. tally_inputs_ok example_cmfd (fst (snd call))"
    by (simp add: example_inputs_ok)
  note inst = tally_all_order_independent [OF perm, of 26 example_cmfd]
  have same: "tally_all 26 [?a, ?b] example_cmfd = tally_all 26 [?b, ?a] example_cmfd"
    using inst by blast
  have total: "tally_all 26 [?b, ?a] example_cmfd =
      Some (example_cmfd\<lparr>surface_currents :=
        \<lambda>i j. surface_currents example_cmfd i j
              + sum_list (map (\<lambda>call. call_contribution 26 example_cmfd call i j) [?a, ?b])\<rparr>)"
    using inst ok by blast
  have ex: "num_cmfd_groups example_cmfd = 2" "surface_currents example_cmfd = (\<lambda>_ _. 0)"
    by (simp_all add: example_cmfd_def)
  have e2: "surface_currents example_cmfd 1 2
              + sum_list (map (\<lambda>call. call_contribution 26 example_cmfd call 1 2) [?a, ?b]) = 7"
    by (simp add: call_contribution_def matched_tag_def signed_divide_int_def
        signed_modulo_int_def ex example_condensed_0)
  have e3: "surface_currents example_cmfd 1 3
              + sum_list (map (\<lambda>call. call_contribution 26 example_cmfd call 1 3) [?a, ?b]) = 8"
    by (simp add: call_contribution_def matched_tag_def signed_divide_int_def
        signed_modulo_int_def ex example_condensed_1)
  show ?thesis
    using perm same total e2 e3 by simp
qed

text \<open>
  C10. When a tally occurs (the direction-matched tag is not \<open>-1\<close>), the tag is decoded as
  \<open>cell_id = tag / NUM_SURFACES\<close> and \<open>surf_id = tag % NUM_SURFACES\<close>. With array accesses
  in bounds the run returns the old object with only its surface-current store changed:
  exactly the entries of cell \<open>cell_id\<close> with index in
  \<open>[surf_id * num_cmfd_groups, (surf_id + 1) * num_cmfd_groups - 1]\<close> have grown, entry
  \<open>surf_id * num_cmfd_groups + g\<close> by the current condensed into coarse group \<open>g\<close>, and every
  entry of every other cell and surface is as before. Any run that returns has computed
  the local array \<open>currents\<close> by the loops of the function, and its result is the old
  object with the store that \<open>incrementValues\<close> gives for that cell, that index range and
  that array: the entries of the range have grown by the entries of \<open>currents\<close>, every
  other entry and every other field is unchanged. The range has \<open>num_cmfd_groups\<close> entries.
\<close>

theorem tallyCurrent_frame:
  assumes "matched_tag curr_segment fwd \<noteq> - 1"
  shows "(tally_inputs_ok c track_flux \<longrightarrow>
            tallyCurrent NUM_SURFACES curr_segment track_flux azim_index polar_index fwd c =
              Some (c\<lparr>surface_currents :=
                \<lambda>i j. if i = matched_tag curr_segment fwd sdiv NUM_SURFACES
                          \<and> matched_tag curr_segment fwd smod NUM_SURFACES * num_cmfd_groups c \<le> j
                          \<and> j \<le> (matched_tag curr_segment fwd smod NUM_SURFACES + 1) * num_cmfd_groups c - 1
                       then surface_currents c i j
                            + condensed_current c track_flux azim_index polar_index
                                (j - matched_tag curr_segment fwd smod NUM_SURFACES * num_cmfd_groups c)
                       else surface_currents c i j\<rparr>)) \<and>
         (\<forall>c'. tallyCurrent NUM_SURFACES curr_segment track_flux azim_index polar_index fwd c = Some c' \<longrightarrow>
            (\<exists>currents. segment_currents c track_flux azim_index polar_index = Some currents \<and>
               length currents = nat (num_cmfd_groups c) \<and>
               incrementValues (matched_tag curr_segment fwd sdiv NUM_SURFACES)
                 (matched_tag curr_segment fwd smod NUM_SURFACES * num_cmfd_groups c)
                 ((matched_tag curr_segment fwd smod NUM_SURFACES + 1) * num_cmfd_groups c - 1)
                 currents (surface_currents c) = Some (surface_currents c') \<and>
               c' = c\<lparr>surface_currents := surface_currents c'\<rparr> \<and>
               (\<forall>i j. surface_currents c' i j =
                  (if i = matched_tag curr_segment fwd sdiv NUM_SURFACES
                      \<and> matched_tag curr_segment fwd smod NUM_SURFACES * num_cmfd_groups c \<le> j
                      \<and> j \<le> (matched_tag curr_segment fwd smod NUM_SURFACES + 1) * num_cmfd_groups c - 1
                   then surface_currents c i j
                        + currents ! nat (j - matched_tag curr_segment fwd smod NUM_SURFACES * num_cmfd_groups c)
                   else surface_currents c i j)))) \<and>
         length [matched_tag curr_segment fwd smod NUM_SURFACES * num_cmfd_groups c ..
                 (matched_tag curr_segment fwd smod NUM_SURFACES + 1) * num_cmfd_groups c - 1]
           = nat (num_cmfd_groups c)"
proof (intro conjI allI impI)
  assume "tally_inputs_ok c track_flux"
  with assms show "tallyCurrent NUM_SURFACES curr_segment track_flux azim_index polar_index fwd c =
              Some (c\<lparr>surface_currents :=
                \<lambda>i j. if i = matched_tag curr_segment fwd sdiv NUM_SURFACES
                          \<and> matched_tag curr_segment fwd smod NUM_SURFACES * num_cmfd_groups c \<le> j
                          \<and> j \<le> (matched_tag curr_segment fwd smod NUM_SURFACES + 1) * num_cmfd_groups c - 1
                       then surface_currents c i j
                            + condensed_current c track_flux azim_index polar_index
                                (j - matched_tag curr_segment fwd smod NUM_SURFACES * num_cmfd_groups c)
                       else surface_currents c i j\<rparr>)"
    by (rule tallyCurrent_tallied)
next
  fix c'
  let ?cell = "matched_tag curr_segment fwd sdiv NUM_SURFACES"
  let ?first = "matched_tag curr_segment fwd smod NUM_SURFACES * num_cmfd_groups c"
  let ?last = "(matched_tag curr_segment fwd smod NUM_SURFACES + 1) * num_cmfd_groups c - 1"
  assume run: "tallyCurrent NUM_SURFACES curr_segment track_flux azim_index polar_index fwd c = Some c'"
  then obtain cur where cur: "segment_currents c track_flux azim_index polar_index = Some cur"
    by (auto simp: tallyCurrent_store [OF assms])
  then have len: "length cur = nat (num_cmfd_groups c)" by (rule segment_currents_length)
  let ?sc = "\<lambda>i j. if i = ?cell \<and> ?first \<le> j \<and> j \<le> ?last
                    then surface_currents c i j + cur ! nat (j - ?first)
                    else surface_currents c i j"
  have c': "c' = c\<lparr>surface_currents := ?sc\<rparr>"
    using run cur by (simp add: tallyCurrent_store [OF assms])
  then have sc: "surface_currents c' = ?sc" by simp
  have inc: "incrementValues ?cell ?first ?last cur (surface_currents c) = Some (surface_currents c')"
    unfolding sc using len by (rule incrementValues_surface)
  have "c' = c\<lparr>surface_currents := surface_currents c'\<rparr>"
    using c' by simp
  moreover have "\<forall>i j. surface_currents c' i j =
                  (if i = ?cell \<and> ?first \<le> j \<and> j \<le> ?last
                   then surface_currents c i j + cur ! nat (j - ?first)
                   else surface_currents c i j)"
    unfolding sc by simp
  ultimately show "\<exists>currents. segment_currents c track_flux azim_index polar_index = Some currents \<and>
               length currents = nat (num_cmfd_groups c) \<and>
               incrementValues ?cell ?first ?last currents (surface_currents c) = Some (surface_currents c') \<and>
               c' = c\<lparr>surface_currents := surface_currents c'\<rparr> \<and>
               (\<forall>i j. surface_currents c' i j =
                  (if i = ?cell \<and> ?first \<le> j \<and> j \<le> ?last
                   then surface_currents c i j + currents ! nat (j - ?first)
                   else surface_currents c i j))"
    using cur len inc by blast
next
  show "length [matched_tag curr_segment fwd smod NUM_SURFACES * num_cmfd_groups c ..
                 (matched_tag curr_segment fwd smod NUM_SURFACES + 1) * num_cmfd_groups c - 1]
           = nat (num_cmfd_groups c)"
    by (simp add: algebra_simps)
qed

theorem tallyCurrent_frame_witness:
  "matched_tag \<lparr>cmfd_surface_fwd = 27, cmfd_surface_bwd = - 1\<rparr> True \<noteq> - 1 \<and>
   tally_inputs_ok (example_cmfd\<lparr>surface_currents := \<lambda>i j. 5\<rparr>) [1, 2, 3, 4, 5, 6] \<and>
   (\<exists>c'. tallyCurrent 26 \<lparr>cmfd_surface_fwd = 27, cmfd_surface_bwd = - 1\<rparr>
             [1, 2, 3, 4, 5, 6] 0 0 True (example_cmfd\<lparr>surface_currents := \<lambda>i j. 5\<rparr>) = Some c' \<and>
          segment_currents (example_cmfd\<lparr>surface_currents := \<lambda>i j. 5\<rparr>) [1, 2, 3, 4, 5, 6] 0 0
            = Some [7 / 2, 4] \<and>
          surface_currents c' 1 2 = 17 / 2 \<and> surface_currents c' 1 3 = 9 \<and>
          surface_currents c' 1 1 = 5 \<and> surface_currents c' 1 4 = 5 \<and>
          surface_currents c' 0 2 = 5 \<and> surface_currents c' 2 3 = 5 \<and>
          k_eff c' = 1 \<and> num_cmfd_groups c' = 2 \<and> group_indices_map c' = [0, 0, 1]) \<and>
   length [1 * 2 .. (1 + 1) * 2 - 1 :: int] = 2"
proof -
  let ?seg = "\<lparr>cmfd_surface_fwd = 27, cmfd_surface_bwd = - 1\<rparr>"
  let ?c = "example_cmfd\<lparr>surface_currents := \<lambda>i j. 5\<rparr>"
  let ?tf = "[1, 2, 3, 4, 5, 6] :: FP_PRECISION list"
  have tag: "matched_tag ?seg True \<noteq> - 1" by (simp add: matched_tag_def)
  have ok: "tally_inputs_ok ?c ?tf"
    by (simp add: tally_inputs_ok_def example_cmfd_def upto_0_1 upto_0_2)
  have dec: "matched_tag ?seg True sdiv 26 = 1" "matched_tag ?seg True smod 26 = 1"
    by (simp_all add: matched_tag_def signed_divide_int_def signed_modulo_int_def)
  have ncg: "num_cmfd_groups ?c = 2" by (simp add: example_cmfd_def)
  have cc: "condensed_current ?c ?tf 0 0 0 = 7 / 2" "condensed_current ?c ?tf 0 0 1 = 4"
    by (simp_all add: condensed_current_store_indep example_condensed_0 example_condensed_1)
  note inst = tallyCurrent_frame [OF tag, of ?c ?tf 26 0 0]
  from inst ok have run: "tallyCurrent 26 ?seg ?tf 0 0 True ?c =
      Some (?c\<lparr>surface_currents :=
        \<lambda>i j. if i = matched_tag ?seg True sdiv 26
                  \<and> matched_tag ?seg True smod 26 * num_cmfd_groups ?c \<le> j
                  \<and> j \<le> (matched_tag ?seg True smod 26 + 1) * num_cmfd_groups ?c - 1
               then surface_currents ?c i j
                    + condensed_current ?c ?tf 0 0
                        (j - matched_tag ?seg True smod 26 * num_cmfd_groups ?c)
               else surface_currents ?c i j\<rparr>)"
    by blast
  let ?c' = "?c\<lparr>surface_currents :=
        \<lambda>i j. if i = matched_tag ?seg True sdiv 26
                  \<and> matched_tag ?seg True smod 26 * num_cmfd_groups ?c \<le> j
                  \<and> j \<le> (matched_tag ?seg True smod 26 + 1) * num_cmfd_groups ?c - 1
               then surface_currents ?c i j
                    + condensed_current ?c ?tf 0 0
                        (j - matched_tag ?seg True smod 26 * num_cmfd_groups ?c)
               else surface_currents ?c i j\<rparr>"
  have seg: "segment_currents ?c ?tf 0 0 = Some [7 / 2, 4]"
  proof -
    from inst run obtain currents where s: "segment_currents ?c ?tf 0 0 = Some currents"
      and len: "length currents = nat (num_cmfd_groups ?c)"
      and frame: "\<forall>i j. surface_currents ?c' i j =
        (if i = matched_tag ?seg True sdiv 26
            \<and> matched_tag ?seg True smod 26 * num_cmfd_groups ?c \<le> j
            \<and> j \<le> (matched_tag ?seg True smod 26 + 1) * num_cmfd_groups ?c - 1
         then surface_currents ?c i j
              + currents ! nat (j - matched_tag ?seg True smod 26 * num_cmfd_groups ?c)
         else surface_currents ?c i j)"
      by blast
    have "currents ! 0 = 7 / 2"
      using frame [rule_format, of 1 2] unfolding dec ncg by (simp add: cc)
    moreover have "currents ! 1 = 4"
      using frame [rule_format, of 1 3] unfolding dec ncg by (simp add: cc)
    moreover have "length currents = 2" using len ncg by simp
    ultimately have "currents = [7 / 2, 4]"
      by (auto simp: list_eq_iff_nth_eq less_Suc_eq numeral_2_eq_2)
    with s show ?thesis by simp
  qed
  have "surface_currents ?c' 1 2 = 17 / 2" "surface_currents ?c' 1 3 = 9"
       "surface_currents ?c' 1 1 = 5" "surface_currents ?c' 1 4 = 5"
       "surface_currents ?c' 0 2 = 5" "surface_currents ?c' 2 3 = 5"
    unfolding dec ncg by (simp_all add: cc)
  moreover have "k_eff ?c' = 1" "num_cmfd_groups ?c' = 2" "group_indices_map ?c' = [0, 0, 1]"
    by (simp_all add: example_cmfd_def)
  moreover have "length [1 * 2 .. (1 + 1) * 2 - 1 :: int] = 2" by simp
  ultimately show ?thesis using tag ok run seg by blast
qed

section \<open>Properties of the k-nearest stencils\<close>

lemma mset_stencil_insert: "mset (stencil_insert x ys) = add_mset x (mset ys)"
  by (induction ys) simp_all

lemma mset_stencil_sort: "mset (stencil_sort xs) = mset xs"
  unfolding stencil_sort_def by (induction xs) (simp_all add: mset_stencil_insert)

lemma set_stencil_insert: "set (stencil_insert x ys) = insert x (set ys)"
  using mset_stencil_insert [of x ys] by (metis set_mset_add_mset_insert set_mset_mset)

lemma ascending_stencil_insert:
  "ascending_by_distance ys \<Longrightarrow> ascending_by_distance (stencil_insert x ys)"
proof (induction ys)
  case Nil
  then show ?case by (simp add: ascending_by_distance_def)
next
  case (Cons y ys)
  show ?case
  proof (cases "stencilCompare y x")
    case True
    have tail: "ascending_by_distance (stencil_insert x ys)"
      using Cons by (simp add: ascending_by_distance_def)
    have "\<forall>z \<in> set (stencil_insert x ys). \<not> stencilCompare z y"
      using Cons.prems True
      by (auto simp: set_stencil_insert ascending_by_distance_def stencilCompare_def)
    with tail True show ?thesis by (simp add: ascending_by_distance_def)
  next
    case False
    have "\<forall>z \<in> set ys. \<not> stencilCompare z x"
      using Cons.prems False
      by (fastforce simp: ascending_by_distance_def stencilCompare_def)
    with Cons.prems False show ?thesis by (simp add: ascending_by_distance_def)
  qed
qed

lemma ascending_stencil_sort: "ascending_by_distance (stencil_sort xs)"
  unfolding stencil_sort_def
  by (induction xs) (simp_all add: ascending_stencil_insert, simp add: ascending_by_distance_def)

lemma ascending_take: "ascending_by_distance ys \<Longrightarrow> ascending_by_distance (take k ys)"
  unfolding ascending_by_distance_def
  by (metis append_take_drop_id sorted_wrt_append)

lemma ascending_take_nearest:
  assumes "ascending_by_distance ys" and "a \<in> set (take k ys)" and "b \<in> set (drop k ys)"
  shows "snd a \<le> snd b"
proof -
  have "sorted_wrt (\<lambda>a b. \<not> stencilCompare b a) (take k ys @ drop k ys)"
    using assms(1) by (simp add: ascending_by_distance_def)
  then have "\<not> stencilCompare b a"
    using assms(2,3) unfolding sorted_wrt_append by blast
  then show ?thesis by (simp add: stencilCompare_def)
qed

lemma generateKNearestStencil_indep:
  "generateKNearestStencil centroid_distance (c\<lparr>k_nearest_stencils := m\<rparr>) fsr = generateKNearestStencil centroid_distance c fsr"
  by (simp add: generateKNearestStencil_def getNumCells_def)

lemma ascending_sorted_distances: "ascending_by_distance st \<Longrightarrow> sorted (map snd st)"
  by (simp add: ascending_by_distance_def stencilCompare_def sorted_map not_less)

text \<open>
  C4. For a fixed geometry (the distance table and the fields of the object), stencil
  generation yields for every fine region a list of (coarse-cell-id, distance) pairs that
  a repeated run reproduces identically, that is sorted ascending by distance, and that
  has exactly \<open>k\<close> entries, or as many as there are coarse cells when these are fewer than
  \<open>k\<close>. Its entries are distinct coarse cells with their distances, and no coarse cell left
  out is nearer than one kept.
\<close>

theorem generateKNearestStencils_sorted_truncated:
  assumes "0 \<le> fsr" and "fsr < num_FSRs c"
  shows "\<exists>st. k_nearest_stencils (generateKNearestStencils centroid_distance c) fsr = Some st \<and>
           k_nearest_stencils (generateKNearestStencils centroid_distance (generateKNearestStencils centroid_distance c)) fsr
             = Some st \<and>
           sorted (map snd st) \<and>
           length st = min (nat (k_nearest c)) (nat (getNumCells c)) \<and>
           distinct (map fst st) \<and>
           (\<forall>e \<in> set st. 0 \<le> fst e \<and> fst e < getNumCells c \<and> snd e = centroid_distance fsr (fst e)) \<and>
           (\<forall>cell. 0 \<le> cell \<and> cell < getNumCells c \<and> cell \<notin> fst ` set st \<longrightarrow>
                   (\<forall>e \<in> set st. snd e \<le> centroid_distance fsr cell))"
proof -
  let ?cands = "map (\<lambda>cell. (cell, centroid_distance fsr cell)) [0 .. getNumCells c - 1]"
  let ?ys = "stencil_sort ?cands"
  let ?k = "nat (k_nearest c)"
  let ?st = "take ?k ?ys"
  have st: "generateKNearestStencil centroid_distance c fsr = ?st"
    by (simp add: generateKNearestStencil_def)
  have run1: "k_nearest_stencils (generateKNearestStencils centroid_distance c) fsr = Some ?st"
    using assms by (simp add: generateKNearestStencils_def st)
  have run2: "k_nearest_stencils (generateKNearestStencils centroid_distance (generateKNearestStencils centroid_distance c)) fsr
             = Some ?st"
    using assms
    by (simp add: generateKNearestStencils_def [of centroid_distance "c\<lparr>k_nearest_stencils := m\<rparr>" for m]
        generateKNearestStencils_def [of centroid_distance c] generateKNearestStencil_indep st)
  have asc: "ascending_by_distance ?ys" by (rule ascending_stencil_sort)
  have srt: "sorted (map snd ?st)"
    by (rule ascending_sorted_distances) (rule ascending_take [OF asc])
  have "length ?ys = length ?cands"
    using mset_stencil_sort [of ?cands] by (rule mset_eq_length)
  then have len: "length ?st = min ?k (nat (getNumCells c))"
    by simp
  have set_ys: "set ?ys = set ?cands"
    using mset_stencil_sort [of ?cands] by (rule mset_eq_setD)
  have "mset (map fst ?ys) = mset (map fst ?cands)"
    using mset_stencil_sort [of ?cands] by (metis mset_map)
  then have "distinct (map fst ?ys) = distinct (map fst ?cands)"
    by (rule mset_eq_imp_distinct_iff)
  then have "distinct (map fst ?ys)"
    by (simp add: comp_def)
  then have dist_st: "distinct (map fst ?st)"
    by (simp add: take_map [symmetric] distinct_take)
  have entries: "\<forall>e \<in> set ?st. 0 \<le> fst e \<and> fst e < getNumCells c \<and> snd e = centroid_distance fsr (fst e)"
  proof
    fix e assume "e \<in> set ?st"
    then have "e \<in> set ?cands" using set_ys by (auto dest: in_set_takeD)
    then show "0 \<le> fst e \<and> fst e < getNumCells c \<and> snd e = centroid_distance fsr (fst e)" by auto
  qed
  have nearest: "\<forall>cell. 0 \<le> cell \<and> cell < getNumCells c \<and> cell \<notin> fst ` set ?st \<longrightarrow>
                   (\<forall>e \<in> set ?st. snd e \<le> centroid_distance fsr cell)"
  proof (intro allI impI ballI)
    fix cell e
    assume cell: "0 \<le> cell \<and> cell < getNumCells c \<and> cell \<notin> fst ` set ?st" and e: "e \<in> set ?st"
    then have "(cell, centroid_distance fsr cell) \<in> set ?cands" by auto
    then have "(cell, centroid_distance fsr cell) \<in> set (take ?k ?ys) \<union> set (drop ?k ?ys)"
      using set_ys by (metis append_take_drop_id set_append)
    moreover have "(cell, centroid_distance fsr cell) \<notin> set ?st"
      using cell by force
    ultimately have "(cell, centroid_distance fsr cell) \<in> set (drop ?k ?ys)" by auto
    with asc e have "snd e \<le> snd (cell, centroid_distance fsr cell)"
      by (rule ascending_take_nearest)
    then show "snd e \<le> centroid_distance fsr cell" by simp
  qed
  from run1 run2 srt len dist_st entries nearest show ?thesis by blast
qed


theorem generateKNearestStencils_sorted_truncated_witness:
  "(0::int) \<le> 1 \<and> 1 < num_FSRs (example_cmfd\<lparr>num_x := 3, k_nearest := 2\<rparr>) \<and>
   (\<exists>st. k_nearest_stencils
            (generateKNearestStencils example_distance (example_cmfd\<lparr>num_x := 3, k_nearest := 2\<rparr>)) 1
          = Some st \<and> sorted (map snd st) \<and> length st = 2) \<and>
   k_nearest_stencils
     (generateKNearestStencils example_distance (example_cmfd\<lparr>num_x := 3, k_nearest := 2\<rparr>)) 1
   = Some [(1, 1), (2, 2)]"
proof -
  let ?c = "example_cmfd\<lparr>num_x := 3, k_nearest := 2\<rparr>"
  have fsr: "(0::int) \<le> 1" "1 < num_FSRs ?c" by (simp_all add: example_cmfd_def)
  have n: "getNumCells ?c = 3" "k_nearest ?c = 2"
    by (simp_all add: getNumCells_def example_cmfd_def)
  from generateKNearestStencils_sorted_truncated [OF fsr, where centroid_distance = example_distance]
  have "\<exists>st. k_nearest_stencils (generateKNearestStencils example_distance ?c) 1 = Some st \<and>
          sorted (map snd st) \<and> length st = 2"
    unfolding n by auto
  moreover have "k_nearest_stencils (generateKNearestStencils example_distance ?c) 1
      = Some [(1, 1), (2, 2)]"
    using fsr
    by (simp add: generateKNearestStencils_def generateKNearestStencil_def n upto_0_2
        stencil_sort_def stencilCompare_def example_distance_def)
  ultimately show ?thesis using fsr by blast
qed

section \<open>Properties of the flux update\<close>

lemma for_each_fixed:
  "\<forall>i \<in> set is. body i s = Some s \<Longrightarrow> for_each is body s = Some s"
  by (induction "is") simp_all

lemma mult_at_one:
  "0 \<le> i \<Longrightarrow> i < int (length xs) \<Longrightarrow> mult_at xs i 1 = Some xs"
  by (simp add: mult_at_def)

lemma sum_list_normalised:
  fixes f :: "'b \<Rightarrow> real"
  assumes "sum_list (map f xs) \<noteq> 0"
  shows "sum_list (map (\<lambda>x. f x / sum_list (map f xs)) xs) = 1"
proof -
  have "sum_list (map (\<lambda>x. f x / t) ys) = sum_list (map f ys) / t" for t and ys :: "'b list"
    by (induction ys) (simp_all add: add_divide_distrib)
  then show ?thesis using assms by simp
qed

lemma getUpdateRatio_one:
  assumes ratio: "\<forall>i g. 0 \<le> i \<and> i < getNumCells c \<and> 0 \<le> g \<and> g < num_cmfd_groups c \<longrightarrow>
                    flux_ratio c i g = 1"
    and cell: "0 \<le> cell_id" "cell_id < getNumCells c"
    and grp: "0 \<le> e" "e < int (length (group_indices_map c))"
             "0 \<le> group_indices_map c ! nat e" "group_indices_map c ! nat e < num_cmfd_groups c"
    and st: "centroid_update_on c \<longrightarrow> stencil_ok weight_of c fsr"
  shows "getUpdateRatio weight_of c cell_id e fsr = Some 1"
proof (cases "centroid_update_on c")
  case False
  then show ?thesis
    using ratio cell grp by (simp add: getUpdateRatio_def getCmfdGroup_def read_at_def)
next
  case True
  with st obtain stencil where s: "k_nearest_stencils c fsr = Some stencil"
    and total: "sum_list (map (\<lambda>e. weight_of (snd e)) stencil) \<noteq> 0"
    and cells: "\<forall>x \<in> set stencil. 0 \<le> fst x \<and> fst x < getNumCells c"
    by (auto simp: stencil_ok_def split: option.splits)
  let ?g = "group_indices_map c ! nat e"
  let ?t = "sum_list (map (\<lambda>e. weight_of (snd e)) stencil)"
  have meq: "map (\<lambda>x. weight_of (snd x) / ?t * flux_ratio c (fst x) ?g) stencil
      = map (\<lambda>x. weight_of (snd x) / ?t) stencil"
    using ratio cells grp by (intro map_cong refl) simp
  have "sum_list (map (\<lambda>x. weight_of (snd x) / ?t * flux_ratio c (fst x) ?g) stencil) = 1"
    unfolding meq by (rule sum_list_normalised [OF total])
  then show ?thesis
    using True s total grp by (simp add: getUpdateRatio_def getCmfdGroup_def read_at_def Let_def)
qed

lemma computeFluxRatios_one:
  assumes "near_zero 0"
    and "\<forall>i g. 0 \<le> i \<and> i < getNumCells c \<and> 0 \<le> g \<and> g < num_cmfd_groups c \<longrightarrow>
           new_flux c i g = old_flux c i g"
  shows "\<forall>i g. 0 \<le> i \<and> i < getNumCells (computeFluxRatios near_zero c) \<and> 0 \<le> g
               \<and> g < num_cmfd_groups (computeFluxRatios near_zero c) \<longrightarrow>
           flux_ratio (computeFluxRatios near_zero c) i g = 1"
proof (intro allI impI)
  fix i g
  assume "0 \<le> i \<and> i < getNumCells (computeFluxRatios near_zero c) \<and> 0 \<le> g
               \<and> g < num_cmfd_groups (computeFluxRatios near_zero c)"
  then have rng: "0 \<le> i \<and> i < getNumCells c \<and> 0 \<le> g \<and> g < num_cmfd_groups c"
    by (simp add: computeFluxRatios_def getNumCells_def)
  then have eq: "new_flux c i g = old_flux c i g" using assms(2) by blast
  show "flux_ratio (computeFluxRatios near_zero c) i g = 1"
  proof (cases "near_zero (old_flux c i g)")
    case True
    with rng show ?thesis by (simp add: computeFluxRatios_def)
  next
    case False
    with assms(1) have "old_flux c i g \<noteq> 0" by auto
    with False rng eq show ?thesis by (simp add: computeFluxRatios_def)
  qed
qed

lemma update_inputs_ok_ratios:
  "update_inputs_ok weight_of (computeFluxRatios near_zero c) = update_inputs_ok weight_of c"
proof -
  have "getNumCells (computeFluxRatios near_zero c) = getNumCells c"
    by (simp add: computeFluxRatios_def getNumCells_def)
  moreover have "stencil_ok weight_of (computeFluxRatios near_zero c) = stencil_ok weight_of c"
    unfolding stencil_ok_def calculation by (simp add: computeFluxRatios_def)
  ultimately show ?thesis
    unfolding update_inputs_ok_def by (simp add: computeFluxRatios_def)
qed

lemma update_cell_fixed:
  assumes ratio: "\<forall>i g. 0 \<le> i \<and> i < getNumCells c \<and> 0 \<le> g \<and> g < num_cmfd_groups c \<longrightarrow>
                    flux_ratio c i g = 1"
    and ok: "update_inputs_ok weight_of c"
    and len: "length fluxes = length (FSR_fluxes c)"
    and i: "i \<in> set [0 .. getNumCells c - 1]"
  shows "update_cell weight_of c i fluxes = Some fluxes"
proof -
  have i': "0 \<le> i" "i < getNumCells c" using i by simp_all
  have fsrs: "read_at (cell_fsrs c) i = Some (cell_fsrs c ! nat i)"
    using ok i' by (simp add: update_inputs_ok_def read_at_def)
  have inner: "for_each [0 .. num_moc_groups c - 1] (update_group weight_of c i fsr) fluxes = Some fluxes"
    if fsr: "fsr \<in> set (cell_fsrs c ! nat i)" for fsr
  proof (rule for_each_fixed, rule ballI)
    fix e assume e: "e \<in> set [0 .. num_moc_groups c - 1]"
    have grp: "0 \<le> e" "e < int (length (group_indices_map c))"
      "0 \<le> group_indices_map c ! nat e" "group_indices_map c ! nat e < num_cmfd_groups c"
      using ok e by (simp_all add: update_inputs_ok_def)
    have st: "centroid_update_on c \<longrightarrow> stencil_ok weight_of c fsr"
      using ok i fsr unfolding update_inputs_ok_def by blast
    have idx: "0 \<le> fsr * num_moc_groups c + e"
      "fsr * num_moc_groups c + e < int (length fluxes)"
      using ok i fsr e len unfolding update_inputs_ok_def by metis+
    have "getUpdateRatio weight_of c i e fsr = Some 1"
      by (rule getUpdateRatio_one [OF ratio i' grp st])
    then show "update_group weight_of c i fsr e fluxes = Some fluxes"
      using idx by (simp add: update_group_def mult_at_one)
  qed
  have "for_each (cell_fsrs c ! nat i)
         (\<lambda>fsr. for_each [0 .. num_moc_groups c - 1] (update_group weight_of c i fsr)) fluxes
       = Some fluxes"
    by (rule for_each_fixed) (simp add: inner)
  then show ?thesis by (simp add: update_cell_def fsrs)
qed

lemma example_update_inputs_ok: "update_inputs_ok example_weight example_centroid_cmfd"
  by (simp add: update_inputs_ok_def stencil_ok_def getNumCells_def example_centroid_cmfd_def
      example_cmfd_def example_weight_def upto_0_1 upto_0_2)

text \<open>
  C5. Round trip of the flux update: if \<open>new_flux\<close> equals \<open>old_flux\<close> in every coarse
  cell and coarse group (and zero counts as near zero), then every flux ratio is 1 and
  \<open>updateMOCFlux\<close>, with or without centroid-based interpolation, returns with every
  fine-region flux unchanged.
\<close>

theorem updateMOCFlux_round_trip:
  assumes "near_zero 0"
    and "\<forall>i g. 0 \<le> i \<and> i < getNumCells c \<and> 0 \<le> g \<and> g < num_cmfd_groups c \<longrightarrow>
           new_flux c i g = old_flux c i g"
    and "update_inputs_ok weight_of c"
  shows "\<exists>c'. updateMOCFlux near_zero weight_of c = Some c' \<and>
           FSR_fluxes c' = FSR_fluxes c \<and>
           (\<forall>i g. 0 \<le> i \<and> i < getNumCells c \<and> 0 \<le> g \<and> g < num_cmfd_groups c \<longrightarrow>
              flux_ratio c' i g = 1)"
proof -
  let ?c1 = "computeFluxRatios near_zero c"
  have ratio: "\<forall>i g. 0 \<le> i \<and> i < getNumCells ?c1 \<and> 0 \<le> g \<and> g < num_cmfd_groups ?c1 \<longrightarrow>
           flux_ratio ?c1 i g = 1"
    using assms(1,2) by (rule computeFluxRatios_one)
  have ok: "update_inputs_ok weight_of ?c1"
    using assms(3) by (simp add: update_inputs_ok_ratios)
  have same: "getNumCells ?c1 = getNumCells c" "num_cmfd_groups ?c1 = num_cmfd_groups c"
    "FSR_fluxes ?c1 = FSR_fluxes c"
    by (simp_all add: computeFluxRatios_def getNumCells_def)
  have "for_each [0 .. getNumCells ?c1 - 1] (update_cell weight_of ?c1) (FSR_fluxes ?c1)
        = Some (FSR_fluxes ?c1)"
    by (rule for_each_fixed) (simp add: update_cell_fixed [OF ratio ok])
  then have run: "updateMOCFlux near_zero weight_of c = Some (?c1\<lparr>FSR_fluxes := FSR_fluxes ?c1\<rparr>)"
    by (simp add: updateMOCFlux_def Let_def)
  show ?thesis
    using ratio unfolding run same by simp
qed

theorem updateMOCFlux_round_trip_witness:
  "example_near_zero 0 \<and>
   new_flux example_centroid_cmfd = old_flux example_centroid_cmfd \<and>
   update_inputs_ok example_weight example_centroid_cmfd \<and>
   (\<exists>c'. updateMOCFlux example_near_zero example_weight example_centroid_cmfd = Some c' \<and>
          FSR_fluxes c' = [1, 1, 1, 2, 2, 2] \<and>
          flux_ratio c' 0 0 = 1 \<and> flux_ratio c' 1 1 = 1)"
proof -
  let ?c = example_centroid_cmfd
  have nz: "example_near_zero 0" by (simp add: example_near_zero_def)
  have same: "new_flux ?c = old_flux ?c"
    by (simp add: example_centroid_cmfd_def)
  then have eq: "\<forall>i g. 0 \<le> i \<and> i < getNumCells ?c \<and> 0 \<le> g \<and> g < num_cmfd_groups ?c \<longrightarrow>
           new_flux ?c i g = old_flux ?c i g"
    by simp
  have n: "getNumCells ?c = 2" "num_cmfd_groups ?c = 2" "FSR_fluxes ?c = [1, 1, 1, 2, 2, 2]"
    by (simp_all add: getNumCells_def example_centroid_cmfd_def example_cmfd_def)
  from updateMOCFlux_round_trip [where near_zero = example_near_zero and c = ?c
      and weight_of = example_weight, OF nz eq example_update_inputs_ok]
  obtain c' where run: "updateMOCFlux example_near_zero example_weight ?c = Some c'"
    and fl: "FSR_fluxes c' = FSR_fluxes ?c"
    and ratio: "\<forall>i g. 0 \<le> i \<and> i < getNumCells ?c \<and> 0 \<le> g \<and> g < num_cmfd_groups ?c \<longrightarrow>
              flux_ratio c' i g = 1"
    by blast
  have "flux_ratio c' 0 0 = 1" "flux_ratio c' 1 1 = 1"
    using ratio unfolding n by simp_all
  with nz same example_update_inputs_ok run fl n show ?thesis by simp
qed

end
